theory Spec2Isabelle
  imports Main "HOL-Library.Monad_Syntax"
begin

unbundle bit_operations_syntax

section \<open>fatresize: a shallow embedding of \<^verbatim>\<open>fatresize.c\<close>\<close>

text \<open>
  The definitions below follow \<^verbatim>\<open>src/fatresize.c\<close> function by function and keep
  its names. C strings are modelled by their contents (the bytes before the
  terminating NUL) as \<open>string\<close>. \<^verbatim>\<open>PedSector\<close> is \<^verbatim>\<open>long long\<close>; it is modelled
  as \<open>int\<close>, with the 64-bit two's complement wrap-around written out where the
  code multiplies (\<open>mul_ll\<close>). A call of \<^verbatim>\<open>usage(code)\<close> prints the help text and
  leaves the process through \<^verbatim>\<open>exit(code)\<close>; a failed \<^verbatim>\<open>PED_ASSERT\<close> (active: the
  file defines \<^verbatim>\<open>DEBUG\<close>) leaves it through \<^verbatim>\<open>abort()\<close>. Both are values of
  the type \<open>error\<close>. Text written to stdout and stderr is left out, except the
  prompt of \<^verbatim>\<open>ask_for_option\<close>.
\<close>

datatype error =
    Usage int          \<comment> \<open>\<^verbatim>\<open>usage(code)\<close>: help text, then \<^verbatim>\<open>exit(code)\<close>\<close>
  | AssertFailed       \<comment> \<open>\<^verbatim>\<open>PED_ASSERT\<close> failed: \<^verbatim>\<open>ped_assert\<close> ends in \<^verbatim>\<open>abort()\<close>\<close>
  | OutOfBounds        \<comment> \<open>a read or a store outside an object (undefined in C)\<close>
  | Uninitialised      \<comment> \<open>use of a local pointer that was never assigned (undefined in C)\<close>
  | DivideByZero       \<comment> \<open>an integer division by zero\<close>

subsection \<open>The C library as the code uses it\<close>

definition LLONG_MAX :: int where
  "LLONG_MAX = 9223372036854775807"

definition LLONG_MIN :: int where
  "LLONG_MIN = - 9223372036854775808"

definition ERANGE :: int where
  "ERANGE = 34"

definition isdigit :: "char \<Rightarrow> bool" where
  "isdigit c = (48 \<le> (of_char c :: nat) \<and> (of_char c :: nat) \<le> 57)"

text \<open>\<^verbatim>\<open>isspace\<close> in the C locale: space, and \<^verbatim>\<open>\t \n \v \f \r\<close>.\<close>

definition isspace :: "char \<Rightarrow> bool" where
  "isspace c = ((of_char c :: nat) = 32 \<or> (9 \<le> (of_char c :: nat) \<and> (of_char c :: nat) \<le> 13))"

definition digit_val :: "char \<Rightarrow> int" where
  "digit_val c = int (of_char c) - 48"

text \<open>The value of a run of decimal digits, most significant first.\<close>

fun digits_val :: "int \<Rightarrow> string \<Rightarrow> int" where
  "digits_val acc [] = acc"
| "digits_val acc (c # cs) = digits_val (10 * acc + digit_val c) cs"

text \<open>
  \<^verbatim>\<open>strtoll(s, &suffix, 10)\<close>: skips white space, reads an optional sign and the
  longest run of digits. The result is the value, the unread rest (\<^verbatim>\<open>suffix\<close>)
  and whether \<^verbatim>\<open>errno\<close> was set to \<^verbatim>\<open>ERANGE\<close>. With no digits nothing is
  converted: the value is 0, the rest is the whole text and \<^verbatim>\<open>errno\<close> is left
  alone. A value outside \<^verbatim>\<open>long long\<close> is clamped and sets \<^verbatim>\<open>ERANGE\<close>.
\<close>

definition strtoll :: "string \<Rightarrow> int \<times> string \<times> bool" where
  "strtoll s =
     (let s1 = dropWhile isspace s;
          neg = (s1 \<noteq> [] \<and> hd s1 = CHR ''-'');
          s2 = (if s1 \<noteq> [] \<and> (hd s1 = CHR ''-'' \<or> hd s1 = CHR ''+'') then tl s1 else s1);
          ds = takeWhile isdigit s2;
          rest = dropWhile isdigit s2;
          v = (if neg then - digits_val 0 ds else digits_val 0 ds)
      in if ds = [] then (0, s, False)
         else if LLONG_MAX < v then (LLONG_MAX, rest, True)
         else if v < LLONG_MIN then (LLONG_MIN, rest, True)
         else (v, rest, False))"

text \<open>
  \<^verbatim>\<open>size *= prefix_kind\<close> on \<^verbatim>\<open>long long\<close>. C leaves signed overflow undefined;
  the code has no check, and the compiled multiplication wraps modulo \<open>2^64\<close>.
\<close>

definition mul_ll :: "int \<Rightarrow> int \<Rightarrow> int" where
  "mul_ll a b = (a * b + 2 ^ 63) mod 2 ^ 64 - 2 ^ 63"

subsection \<open>The size parser: \<^verbatim>\<open>get_size\<close>\<close>

definition MAX_SIZE_STR :: string where
  "MAX_SIZE_STR = ''max''"

text \<open>
  \<^verbatim>\<open>strncmp(s, MAX_SIZE_STR, sizeof(MAX_SIZE_STR) - 1)\<close> compares the first three
  bytes only. The first argument of \<open>get_size\<close> is the value of \<^verbatim>\<open>errno\<close> when
  the function is entered: the code tests \<^verbatim>\<open>errno == ERANGE\<close> after \<^verbatim>\<open>strtoll\<close>
  without clearing it before.
\<close>

definition get_size :: "int \<Rightarrow> string \<Rightarrow> error + int" where
  "get_size errno s =
     (if take (length MAX_SIZE_STR) s = MAX_SIZE_STR then Inr LLONG_MAX
      else
        (case strtoll s of (size', suffix, range_error) \<Rightarrow>
          (let errno' = (if range_error then ERANGE else errno) in
           if size' \<le> 0 \<or> errno' = ERANGE then Inl (Usage 1)
           else if suffix = [] then Inr size'
           else
             (case (if length suffix = 2 \<and> suffix ! 1 = CHR ''i'' then Inr 1024
                    else if 1 < length suffix then Inl (Usage 1)
                    else Inr 1000) of
                Inl e \<Rightarrow> Inl e
              | Inr prefix_kind \<Rightarrow>
                  (if hd suffix = CHR ''G''
                     then Inr (mul_ll (mul_ll (mul_ll size' prefix_kind) prefix_kind) prefix_kind)
                   else if hd suffix = CHR ''M''
                     then Inr (mul_ll (mul_ll size' prefix_kind) prefix_kind)
                   else if hd suffix = CHR ''k''
                     then Inr (mul_ll size' prefix_kind)
                   else Inl (Usage 1))))))"


subsection \<open>Options and the device path: \<^verbatim>\<open>opts\<close>, \<^verbatim>\<open>get_partnum\<close>, \<^verbatim>\<open>get_device\<close>\<close>

text \<open>
  The global \<^verbatim>\<open>opts\<close>. The two strings are pointers that may be \<^verbatim>\<open>NULL\<close>; the
  field \<^verbatim>\<open>size\<close> is called \<open>size_bytes\<close> here.
\<close>

record opts =
  fullpath :: "string option"
  device :: "string option"
  pnum :: int
  size_bytes :: int
  verbose :: int
  progress :: int
  info :: int
  force_yes :: int

text \<open>
  \<^verbatim>\<open>atoi\<close> as the C library implements it: \<^verbatim>\<open>(int) strtol(s, NULL, 10)\<close>, where
  \<^verbatim>\<open>long\<close> has 64 bits and the conversion to \<^verbatim>\<open>int\<close> keeps the low 32 bits.
\<close>

definition to_int32 :: "int \<Rightarrow> int" where
  "to_int32 v = (v + 2 ^ 31) mod 2 ^ 32 - 2 ^ 31"

definition atoi :: "string \<Rightarrow> int" where
  "atoi s = to_int32 (fst (strtoll s))"

text \<open>
  The value of \<^verbatim>\<open>errno\<close> after a call of \<^verbatim>\<open>atoi\<close> entered with the value \<open>errno\<close>:
  \<^verbatim>\<open>strtol\<close> stores \<^verbatim>\<open>ERANGE\<close> when the digits do not fit, and nothing resets it.
\<close>

definition atoi_errno :: "int \<Rightarrow> string \<Rightarrow> int" where
  "atoi_errno errno s = (if snd (snd (strtoll s)) then ERANGE else errno)"

text \<open>
  The loop \<^verbatim>\<open>while (*p && isdigit(*p) && *p != '/') p--;\<close> that both functions
  run from the last byte of the path. The second argument is \<open>p - dev + 1\<close>, and
  so is the result. At 0 the pointer is \<open>dev - 1\<close> and the test reads the byte
  before the string.
\<close>

fun scan_digits_back :: "string \<Rightarrow> nat \<Rightarrow> error + nat" where
  "scan_digits_back dev 0 = Inl OutOfBounds"
| "scan_digits_back dev (Suc i) =
     (if dev ! i \<noteq> CHR 0x00 \<and> isdigit (dev ! i) \<and> dev ! i \<noteq> CHR ''/''
      then scan_digits_back dev i
      else Inr (Suc i))"

definition get_partnum :: "string \<Rightarrow> error + int" where
  "get_partnum dev =
     (case scan_digits_back dev (length dev) of
        Inl e \<Rightarrow> Inl e
      | Inr k \<Rightarrow> (let pnum = atoi (drop k dev) in Inr (if pnum \<noteq> 0 then pnum else 1)))"

text \<open>
  What \<^verbatim>\<open>get_device\<close> asks of the system: \<^verbatim>\<open>stat\<close> gives the file mode or fails,
  and \<^verbatim>\<open>probe_device\<close> says whether libparted can open a path as a device.
\<close>

record env =
  stat :: "string \<Rightarrow> nat option"
  probe_device :: "string \<Rightarrow> bool"

definition S_ISBLK :: "nat \<Rightarrow> bool" where
  "S_ISBLK m = (m AND 61440 = 24576)"

definition S_ISCHR :: "nat \<Rightarrow> bool" where
  "S_ISCHR m = (m AND 61440 = 8192)"

text \<open>
  \<^verbatim>\<open>devname = malloc(len)\<close> is a buffer of \<open>len\<close> bytes: a store at index \<open>i\<close> stays
  inside it only when \<open>i < len\<close>.
\<close>

definition in_buffer :: "nat \<Rightarrow> nat \<Rightarrow> bool" where
  "in_buffer len i = (i < len)"

text \<open>
  The string held by \<^verbatim>\<open>devname\<close> after lines 193 to 198, when all stores stay
  inside the buffer: the first \<open>k\<close> bytes of the path (\<open>k = p - dev + 1\<close>), without
  a final \<^verbatim>\<open>p\<close> that follows a digit.
\<close>

definition devname_of :: "string \<Rightarrow> nat \<Rightarrow> string" where
  "devname_of dev k =
     (let devname = take k dev in
      if 2 < int k - 1 \<and> devname ! (k - 1) = CHR ''p'' \<and> isdigit (devname ! (k - 1 - 1))
      then take (k - 1) devname
      else devname)"

text \<open>
  \<^verbatim>\<open>get_device\<close>. The stores into \<^verbatim>\<open>devname\<close> are checked against the size of the
  buffer: \<^verbatim>\<open>strncpy\<close> stores the \<open>k \<le> len\<close> bytes at the indices below \<open>k\<close>,
  \<^verbatim>\<open>devname[p - dev + 1] = '\0'\<close> stores at index \<open>k\<close>, and \<^verbatim>\<open>strcpy(devname, dev)\<close>
  stores \<open>len + 1\<close> bytes, the last of them at index \<open>len\<close>. A store outside the
  buffer is undefined in C and ends the model with \<open>OutOfBounds\<close>.
\<close>

definition get_device :: "env \<Rightarrow> opts \<Rightarrow> string \<Rightarrow> error + (int \<times> opts)" where
  "get_device e opts0 dev =
     (let opts1 = opts0\<lparr>device := None, fullpath := Some dev\<rparr> in
      case stat e dev of
        None \<Rightarrow> Inr (0, opts1)
      | Some st_mode \<Rightarrow>
          if \<not> (S_ISBLK st_mode \<and> \<not> S_ISCHR st_mode) then
            (if \<not> probe_device e dev then Inr (0, opts1)
             else Inr (1, opts1\<lparr>device := Some dev\<rparr>))
          else
            (case scan_digits_back dev (length dev) of
               Inl err \<Rightarrow> Inl err
             | Inr k \<Rightarrow>
                 if \<not> in_buffer (length dev) k then Inl OutOfBounds
                 else
                   (let devname = devname_of dev k in
                    if \<not> probe_device e devname then
                      (if \<not> in_buffer (length dev) (length dev) then Inl OutOfBounds
                       else if \<not> probe_device e dev then Inr (0, opts1)
                       else Inr (1, opts1\<lparr>device := Some dev\<rparr>))
                    else if pnum opts1 < 0 then
                      (case get_partnum dev of
                         Inl err \<Rightarrow> Inl err
                       | Inr n \<Rightarrow> Inr (1, opts1\<lparr>pnum := n, device := Some devname\<rparr>))
                    else Inr (1, opts1\<lparr>device := Some devname\<rparr>))))"

text \<open>
  The trailing decimal digits of a path, in the words of the specification: the
  longest suffix made of digits.
\<close>

definition trailing_digits :: "string \<Rightarrow> string" where
  "trailing_digits dev = rev (takeWhile isdigit (rev dev))"

subsection \<open>The exception handler: \<^verbatim>\<open>option_get_next\<close>, \<^verbatim>\<open>ask_for_option\<close>, \<^verbatim>\<open>fatresize_handler\<close>\<close>

text \<open>
  The exception types and option flags of libparted's \<^verbatim>\<open>parted/exception.h\<close>. A
  set of options is the sum of its flags. The C type of the enumeration is a
  32-bit unsigned integer, modelled as \<open>nat\<close> with the shift reduced modulo
  \<open>2^32\<close>.
\<close>

datatype PedExceptionType =
    PED_EXCEPTION_INFORMATION
  | PED_EXCEPTION_WARNING
  | PED_EXCEPTION_ERROR
  | PED_EXCEPTION_FATAL
  | PED_EXCEPTION_BUG
  | PED_EXCEPTION_NO_FEATURE

type_synonym PedExceptionOption = nat

definition PED_EXCEPTION_UNHANDLED :: PedExceptionOption where
  "PED_EXCEPTION_UNHANDLED = 0"

definition PED_EXCEPTION_FIX :: PedExceptionOption where
  "PED_EXCEPTION_FIX = 1"

definition PED_EXCEPTION_YES :: PedExceptionOption where
  "PED_EXCEPTION_YES = 2"

definition PED_EXCEPTION_NO :: PedExceptionOption where
  "PED_EXCEPTION_NO = 4"

definition PED_EXCEPTION_OK :: PedExceptionOption where
  "PED_EXCEPTION_OK = 8"

definition PED_EXCEPTION_RETRY :: PedExceptionOption where
  "PED_EXCEPTION_RETRY = 16"

definition PED_EXCEPTION_IGNORE :: PedExceptionOption where
  "PED_EXCEPTION_IGNORE = 32"

definition PED_EXCEPTION_CANCEL :: PedExceptionOption where
  "PED_EXCEPTION_CANCEL = 64"

definition PED_EXCEPTION_IGNORE_CANCEL :: PedExceptionOption where
  "PED_EXCEPTION_IGNORE_CANCEL = PED_EXCEPTION_IGNORE + PED_EXCEPTION_CANCEL"

definition PED_EXCEPTION_OPTION_FIRST :: PedExceptionOption where
  "PED_EXCEPTION_OPTION_FIRST = PED_EXCEPTION_FIX"

record PedException =
  message :: string
  ex_type :: PedExceptionType
  options :: PedExceptionOption

text \<open>
  \<^verbatim>\<open>ped_exception_get_option_string\<close>: libparted's table of option names, indexed
  by the position of the flag. Outside the seven flags the library reads past
  its table; the model gives the empty string there.
\<close>

definition ped_exception_get_option_string :: "PedExceptionOption \<Rightarrow> string" where
  "ped_exception_get_option_string opt =
     (if opt = PED_EXCEPTION_FIX then ''Fix''
      else if opt = PED_EXCEPTION_YES then ''Yes''
      else if opt = PED_EXCEPTION_NO then ''No''
      else if opt = PED_EXCEPTION_OK then ''OK''
      else if opt = PED_EXCEPTION_RETRY then ''Retry''
      else if opt = PED_EXCEPTION_IGNORE then ''Ignore''
      else if opt = PED_EXCEPTION_CANCEL then ''Cancel''
      else [])"

text \<open>\<^verbatim>\<open>i << 1\<close> on a 32-bit unsigned integer.\<close>

definition shl1 :: "nat \<Rightarrow> nat" where
  "shl1 i = (2 * i) mod 2 ^ 32"

text \<open>
  The loop \<^verbatim>\<open>for (; i <= options; i <<= 1)\<close> of \<^verbatim>\<open>option_get_next\<close>. It does not
  end when \<open>i\<close> has been shifted to 0, so it is a partial function: \<open>None\<close>
  stands for a loop that never returns.
\<close>

partial_function (option) option_scan :: "PedExceptionOption \<Rightarrow> nat \<Rightarrow> PedExceptionOption option" where
  "option_scan opts_mask i =
     (if i \<le> opts_mask
      then (if opts_mask AND i \<noteq> 0 then Some i else option_scan opts_mask (shl1 i))
      else Some 0)"

definition option_get_next :: "PedExceptionOption \<Rightarrow> PedExceptionOption \<Rightarrow> PedExceptionOption option" where
  "option_get_next opts_mask current =
     option_scan opts_mask (if current = 0 then PED_EXCEPTION_OPTION_FIRST else shl1 current)"

text \<open>
  The standard input is the list of bytes not yet read. \<^verbatim>\<open>getline\<close> returns the
  next line with its newline, or what is left when the input ends without one,
  and fails at the end of the input.
\<close>

definition newline :: char where
  "newline = CHR 0x0A"

definition getline :: "string \<Rightarrow> (string \<times> string) option" where
  "getline inp =
     (if inp = [] then None
      else (let l = takeWhile (\<lambda>c. c \<noteq> newline) inp;
                r = dropWhile (\<lambda>c. c \<noteq> newline) inp
            in if r = [] then Some (l, []) else Some (l @ [newline], tl r)))"

text \<open>
  The contents of a buffer read as a C string end at the first NUL byte.
  \<open>strcasecmp_eq a b\<close> is \<^verbatim>\<open>strcasecmp(a, b) == 0\<close> in the C locale.
\<close>

definition cstr :: "string \<Rightarrow> string" where
  "cstr s = takeWhile (\<lambda>c. c \<noteq> CHR 0x00) s"

definition tolower :: "char \<Rightarrow> char" where
  "tolower c =
     (if 65 \<le> (of_char c :: nat) \<and> (of_char c :: nat) \<le> 90
      then char_of ((of_char c :: nat) + 32) else c)"

definition strcasecmp_eq :: "string \<Rightarrow> string \<Rightarrow> bool" where
  "strcasecmp_eq a b = (map tolower (cstr a) = map tolower (cstr b))"

text \<open>
  The first loop of \<^verbatim>\<open>ask_for_option\<close> prints the names of the offered options,
  separated by \<^verbatim>\<open>/\<close> after a newline; \<open>out\<close> is the text written so far.
\<close>

partial_function (option) print_prompt :: "PedExceptionOption \<Rightarrow> nat \<Rightarrow> PedExceptionOption \<Rightarrow> string \<Rightarrow> string option" where
  "print_prompt opts_mask i opt out =
     (if opt = 0 then Some out
      else
        (case option_get_next opts_mask opt of
           None \<Rightarrow> None
         | Some nxt \<Rightarrow>
             print_prompt opts_mask (i + 1) nxt
               (out @ (if 0 < i then ''/'' else [newline]) @ ped_exception_get_option_string opt)))"

text \<open>
  The second loop compares the buffer with the name of each offered option and
  returns the first that matches; 0 means that the loop ended without a match.
\<close>

partial_function (option) match_option :: "PedExceptionOption \<Rightarrow> string \<Rightarrow> PedExceptionOption \<Rightarrow> PedExceptionOption option" where
  "match_option opts_mask buffer opt =
     (if opt = 0 then Some 0
      else if strcasecmp_eq buffer (ped_exception_get_option_string opt) then Some opt
      else
        (case option_get_next opts_mask opt of
           None \<Rightarrow> None
         | Some nxt \<Rightarrow> match_option opts_mask buffer nxt))"

text \<open>
  \<^verbatim>\<open>ask_for_option\<close>: prompt, read a line, overwrite its last byte with NUL
  (\<^verbatim>\<open>buffer[line_len-1] = '\0'\<close>), compare; repeat until a line matches or the
  input ends. The result is the option, the input left and the text written.
\<close>

partial_function (option) ask_for_option :: "PedExceptionOption \<Rightarrow> string \<Rightarrow> string \<Rightarrow> (PedExceptionOption \<times> string \<times> string) option" where
  "ask_for_option opts_mask inp out =
     (case option_get_next opts_mask 0 of
        None \<Rightarrow> None
      | Some first \<Rightarrow>
          (case print_prompt opts_mask 0 first out of
             None \<Rightarrow> None
           | Some out1 \<Rightarrow>
               (case getline inp of
                  None \<Rightarrow> Some (PED_EXCEPTION_CANCEL, inp, out1 @ '': '')
                | Some (line, rest) \<Rightarrow>
                    (case match_option opts_mask (butlast line) first of
                       None \<Rightarrow> None
                     | Some opt \<Rightarrow>
                         if opt \<noteq> 0 then Some (opt, rest, out1 @ '': '')
                         else ask_for_option opts_mask rest (out1 @ '': '')))))"

text \<open>
  \<^verbatim>\<open>fatresize_handler\<close>. The message lines that it writes are left out; the
  input and the prompt text are passed through.
\<close>

definition fatresize_handler :: "opts \<Rightarrow> PedException \<Rightarrow> string \<Rightarrow> string \<Rightarrow> (PedExceptionOption \<times> string \<times> string) option" where
  "fatresize_handler opts0 ex inp out =
     (if ex_type ex = PED_EXCEPTION_INFORMATION \<or> ex_type ex = PED_EXCEPTION_WARNING then
        (if force_yes opts0 \<noteq> 0 then
           (if options ex = PED_EXCEPTION_IGNORE_CANCEL then Some (PED_EXCEPTION_IGNORE, inp, out)
            else
              (case option_get_next (options ex) 0 of
                 None \<Rightarrow> None
               | Some opt \<Rightarrow>
                   (case option_get_next (options ex) opt of
                      None \<Rightarrow> None
                    | Some nxt \<Rightarrow>
                        if nxt = 0 then Some (opt, inp, out)
                        else Some (PED_EXCEPTION_UNHANDLED, inp, out))))
         else ask_for_option (options ex) inp out)
      else Some (PED_EXCEPTION_CANCEL, inp, out))"

text \<open>
  What a run of the loop of \<^verbatim>\<open>option_get_next\<close> started at the flag \<open>2^k\<close> returns:
  the lowest flag of the set at position \<open>k\<close> or above, or 0 when there is none.
\<close>

definition scan_result :: "nat \<Rightarrow> nat \<Rightarrow> nat \<Rightarrow> bool" where
  "scan_result m k r =
     ((r = 0 \<and> (\<forall>j\<ge>k. \<not> bit m j))
      \<or> (\<exists>j\<ge>k. j < 32 \<and> r = 2 ^ j \<and> bit m j \<and> (\<forall>i. k \<le> i \<and> i < j \<longrightarrow> \<not> bit m i)))"

text \<open>A value that the iteration over a set of options can hold: 0 or one of its flags.\<close>

definition offered_or_end :: "nat \<Rightarrow> nat \<Rightarrow> bool" where
  "offered_or_end m r = (r = 0 \<or> (\<exists>j. r = 2 ^ j \<and> bit m j))"


subsection \<open>Geometry and the boundary snapper: \<^verbatim>\<open>snap\<close>, \<^verbatim>\<open>try_snap\<close>, \<^verbatim>\<open>snap_to_boundaries\<close>\<close>

text \<open>
  libparted's \<^verbatim>\<open>PedGeometry\<close> (the device pointer is left out: one device is open
  during a run) and the functions of libparted that the snapper calls, after
  \<^verbatim>\<open>libparted/cs/geom.c\<close> and \<^verbatim>\<open>libparted/disk.c\<close>.
\<close>

record PedGeometry =
  g_start :: int
  g_length :: int
  g_end :: int

definition ped_geometry_test_sector_inside :: "PedGeometry \<Rightarrow> int \<Rightarrow> bool" where
  "ped_geometry_test_sector_inside geom sector = (g_start geom \<le> sector \<and> sector \<le> g_end geom)"

text \<open>
  \<^verbatim>\<open>ped_geometry_set\<close> asserts \<^verbatim>\<open>start >= 0\<close>, refuses a length below 1 (result 0,
  geometry unchanged) and otherwise stores start, length and end.
\<close>

definition ped_geometry_set :: "PedGeometry \<Rightarrow> int \<Rightarrow> int \<Rightarrow> error + (int \<times> PedGeometry)" where
  "ped_geometry_set geom start len =
     (if \<not> 0 \<le> start then Inl AssertFailed
      else if len < 1 then Inr (0, geom)
      else Inr (1, geom\<lparr>g_start := start, g_length := len, g_end := start + len - 1\<rparr>))"

definition PED_PARTITION_EXTENDED :: nat where
  "PED_PARTITION_EXTENDED = 2"

record PedPartition =
  geom :: PedGeometry
  num :: int
  part_type :: nat
  fs_type :: "string option"

text \<open>
  A disk is the list of its partitions in the order in which
  \<^verbatim>\<open>ped_disk_next_partition\<close> walks them. \<^verbatim>\<open>ped_disk_get_partition_by_sector\<close>
  returns the first partition that contains the sector and is not an extended
  partition, or \<^verbatim>\<open>NULL\<close>.
\<close>

type_synonym PedDisk = "PedPartition list"

definition ped_disk_get_partition_by_sector :: "PedDisk \<Rightarrow> int \<Rightarrow> PedPartition option" where
  "ped_disk_get_partition_by_sector disk sect =
     find (\<lambda>walk. ped_geometry_test_sector_inside (geom walk) sect
                   \<and> part_type walk \<noteq> PED_PARTITION_EXTENDED) disk"

text \<open>
  \<^verbatim>\<open>snap\<close> returns its result and the new value of \<^verbatim>\<open>*sector\<close>. \<^verbatim>\<open>FAT_ASSERT\<close> calls
  \<^verbatim>\<open>PED_ASSERT\<close> first, which does not return when the condition fails.
\<close>

definition snap :: "int \<Rightarrow> int \<Rightarrow> PedGeometry \<Rightarrow> error + (int \<times> int)" where
  "snap sector new_sector rng =
     (if \<not> ped_geometry_test_sector_inside rng sector then Inl AssertFailed
      else if \<not> ped_geometry_test_sector_inside rng new_sector then Inr (0, sector)
      else Inr (1, new_sector))"

text \<open>
  \<^verbatim>\<open>try_snap\<close> reads its variable arguments one by one until it meets \<open>-1\<close> or a
  call of \<^verbatim>\<open>snap\<close> succeeds. The list holds the arguments as the caller wrote
  them, the final \<open>-1\<close> included; reading past the last argument is undefined.
\<close>

fun try_snap :: "int \<Rightarrow> PedGeometry \<Rightarrow> int list \<Rightarrow> error + int" where
  "try_snap sector rng [] = Inl OutOfBounds"
| "try_snap sector rng (new_sector # rest) =
     (if new_sector = - 1 then Inr sector
      else
        (case snap sector new_sector rng of
           Inl e \<Rightarrow> Inl e
         | Inr (r, sector') \<Rightarrow> if r \<noteq> 0 then Inr sector' else try_snap sector' rng rest))"

text \<open>
  \<^verbatim>\<open>snap_to_boundaries\<close> returns the new value of \<^verbatim>\<open>*new_geom\<close>; \<open>old_geom\<close> is
  \<open>None\<close> for a \<^verbatim>\<open>NULL\<close> pointer. The result of \<^verbatim>\<open>ped_geometry_set\<close> is ignored, as
  in the code.
\<close>

definition snap_to_boundaries :: "PedGeometry \<Rightarrow> PedGeometry option \<Rightarrow> PedDisk \<Rightarrow> PedGeometry \<Rightarrow> PedGeometry \<Rightarrow> error + PedGeometry" where
  "snap_to_boundaries new_geom old_geom disk start_range end_range =
     (let start = g_start new_geom; end0 = g_end new_geom in
      case ped_disk_get_partition_by_sector disk start of
        None \<Rightarrow> Inl AssertFailed
      | Some start_part \<Rightarrow>
          (case ped_disk_get_partition_by_sector disk end0 of
             None \<Rightarrow> Inr new_geom
           | Some end_part \<Rightarrow>
               (case try_snap start start_range
                       (case old_geom of
                          Some old \<Rightarrow> [g_start old, g_start (geom start_part),
                                        g_end (geom start_part) + 1, - 1]
                        | None \<Rightarrow> [g_start (geom start_part), g_end (geom start_part) + 1, - 1]) of
                  Inl e \<Rightarrow> Inl e
                | Inr start1 \<Rightarrow>
                    (case try_snap end0 end_range
                            (case old_geom of
                               Some old \<Rightarrow> [g_end old, g_end (geom end_part),
                                             g_start (geom end_part) - 1, - 1]
                             | None \<Rightarrow> [g_end (geom end_part), g_start (geom end_part) - 1, - 1]) of
                       Inl e \<Rightarrow> Inl e
                     | Inr end1 \<Rightarrow>
                         if \<not> start1 \<le> end1 then Inl AssertFailed
                         else
                           (case ped_geometry_set new_geom start1 (end1 - start1 + 1) of
                              Inl e \<Rightarrow> Inl e
                            | Inr (r, g) \<Rightarrow> Inr g)))))"

text \<open>
  Conditions on the data, in the words of the specification: a geometry has
  \<open>start \<le> end\<close>, a start that is not negative and \<open>length = end - start + 1\<close>;
  the partitions of a table that are not extended partitions do not overlap.
\<close>

definition geom_wf :: "PedGeometry \<Rightarrow> bool" where
  "geom_wf g = (0 \<le> g_start g \<and> 1 \<le> g_length g \<and> g_end g = g_start g + g_length g - 1)"

definition disk_disjoint :: "PedDisk \<Rightarrow> bool" where
  "disk_disjoint disk =
     (\<forall>p\<in>set disk. \<forall>q\<in>set disk.
        part_type p \<noteq> PED_PARTITION_EXTENDED \<and> part_type q \<noteq> PED_PARTITION_EXTENDED \<and> p \<noteq> q
          \<longrightarrow> g_end (geom p) < g_start (geom q) \<or> g_end (geom q) < g_start (geom p))"

abbreviation (input) inside :: "PedGeometry \<Rightarrow> int \<Rightarrow> bool" where
  "inside \<equiv> ped_geometry_test_sector_inside"


subsection \<open>The resize sequence of \<^verbatim>\<open>main\<close>\<close>

text \<open>
  The part of \<^verbatim>\<open>main\<close> after the target partition has been resolved and the
  size is known (from \<^verbatim>\<open>start = part_geom.start\<close> to the end). What libparted
  answers is a parameter of the model: the record \<open>collaborators\<close> gives, for each
  call, its result after any exception has been handled. The model returns the
  list of the calls made, in order, and how the run ends.
\<close>

record PedConstraint =
  c_start_range :: PedGeometry
  c_end_range :: PedGeometry
  min_size :: int
  max_size :: int

record PedFileSystem =
  fs_geom :: PedGeometry
  fs_type_name :: string

record collaborators =
  sector_size :: int
  dev_length :: int
  ped_unit_format :: "int \<Rightarrow> string"
  ped_unit_parse :: "string \<Rightarrow> (int \<times> PedGeometry) option"
  ped_file_system_open :: "PedGeometry \<Rightarrow> PedFileSystem option"
  ped_file_system_get_resize_constraint :: "PedFileSystem \<Rightarrow> PedConstraint option"
  ped_constraint_intersect :: "PedConstraint option \<Rightarrow> PedConstraint \<Rightarrow> PedConstraint option"
  ped_disk_set_partition_geom :: "PedPartition \<Rightarrow> PedConstraint \<Rightarrow> int \<Rightarrow> int \<Rightarrow> bool"
  ped_file_system_resize :: "PedFileSystem \<Rightarrow> PedGeometry \<Rightarrow> bool"
  ped_disk_commit :: bool

datatype call =
    UnitFormat int
  | UnitParse string
  | GeometryNew int int
  | GeometryDuplicate PedGeometry
  | GeometryInit int int
  | SnapToBoundaries PedGeometry PedGeometry PedGeometry PedGeometry
  | FileSystemOpen PedGeometry
  | GetResizeConstraint
  | ConstraintFromStartEnd PedGeometry PedGeometry
  | ConstraintIntersect
  | SetPartitionGeom int int bool
  | FileSystemResize PedGeometry bool
  | PartitionSetSystem string
  | FileSystemClose
  | DiskCommit bool

text \<open>
  How a stretch of \<^verbatim>\<open>main\<close> ends: it goes on with a value, it returns an exit
  code, or the process stops on an error.
\<close>

datatype 'a step = Continue 'a | Exit int | Stop error

definition bind_step :: "call list \<times> 'a step \<Rightarrow> ('a \<Rightarrow> call list \<times> 'b step) \<Rightarrow> call list \<times> 'b step" where
  "bind_step m f =
     (case m of
        (tr, Continue x) \<Rightarrow> (case f x of (tr', r) \<Rightarrow> (tr @ tr', r))
      | (tr, Exit n) \<Rightarrow> (tr, Exit n)
      | (tr, Stop e) \<Rightarrow> (tr, Stop e))"

text \<open>Division of \<^verbatim>\<open>long long\<close> values truncates towards zero; by zero it traps.\<close>

definition c_div :: "int \<Rightarrow> int \<Rightarrow> int" where
  "c_div a b = sgn a * sgn b * (\<bar>a\<bar> div \<bar>b\<bar>)"

text \<open>
  \<^verbatim>\<open>ped_geometry_new\<close> and \<^verbatim>\<open>ped_geometry_init\<close> go through \<^verbatim>\<open>ped_geometry_set\<close>;
  the first returns \<^verbatim>\<open>NULL\<close> and the second 0 when the length is refused.
\<close>

definition ped_geometry_new :: "int \<Rightarrow> int \<Rightarrow> call list \<times> PedGeometry step" where
  "ped_geometry_new start len =
     ([GeometryNew start len],
      case ped_geometry_set \<lparr>g_start = 0, g_length = 0, g_end = 0\<rparr> start len of
        Inl e \<Rightarrow> Stop e
      | Inr (r, g) \<Rightarrow> if r = 0 then Exit 1 else Continue g)"

definition constraint_from_start_end :: "collaborators \<Rightarrow> PedGeometry \<Rightarrow> PedGeometry \<Rightarrow> PedConstraint" where
  "constraint_from_start_end dev range_start range_end =
     \<lparr>c_start_range = range_start, c_end_range = range_end, min_size = 1, max_size = dev_length dev\<rparr>"

text \<open>
  Lines 632 to 643: the proposed end and the range around it. The result is the
  value of \<^verbatim>\<open>end\<close> and the geometry \<^verbatim>\<open>range_end\<close>.
\<close>

definition main_end_range :: "collaborators \<Rightarrow> opts \<Rightarrow> PedGeometry \<Rightarrow> call list \<times> (int \<times> PedGeometry) step" where
  "main_end_range dev opts0 part_geom =
     (if sector_size dev = 0 then ([], Stop DivideByZero)
      else
        (let end0 = g_start part_geom + c_div (size_bytes opts0) (sector_size dev);
             old_str = ped_unit_format dev (g_end part_geom);
             def_str = ped_unit_format dev end0
         in bind_step ([UnitFormat (g_end part_geom), UnitFormat end0], Continue ())
              (\<lambda>_. if old_str = def_str
                    then bind_step (ped_geometry_new (g_end part_geom) 1)
                           (\<lambda>range_end. ([], Continue (end0, range_end)))
                    else ([UnitParse def_str],
                          case ped_unit_parse dev def_str of
                            None \<Rightarrow> Exit 1
                          | Some (end1, range_end) \<Rightarrow> Continue (end1, range_end)))))"

text \<open>
  Lines 647 to 673: the old and the new geometry, the snapper, the file system
  and the constraint. \<open>disk\<close> and \<open>part\<close> are \<open>None\<close> when \<^verbatim>\<open>opts.pnum\<close> is not
  positive: the two local pointers are then never assigned, and the code uses
  them all the same.
\<close>

definition main_constraint :: "collaborators \<Rightarrow> PedDisk option \<Rightarrow> PedPartition option \<Rightarrow> PedGeometry \<Rightarrow> PedGeometry \<Rightarrow> int \<times> PedGeometry \<Rightarrow> call list \<times> (PedGeometry \<times> PedFileSystem \<times> PedConstraint) step" where
  "main_constraint dev disk part part_geom range_start er =
     (case er of (end1, range_end) \<Rightarrow>
        bind_step
          ([GeometryDuplicate part_geom],
           case ped_geometry_set \<lparr>g_start = 0, g_length = 0, g_end = 0\<rparr>
                  (g_start part_geom) (g_length part_geom) of
             Inl e \<Rightarrow> Stop e
           | Inr (r, old_geom) \<Rightarrow> if r = 0 then Exit 1 else Continue old_geom)
          (\<lambda>old_geom.
             bind_step
               ([GeometryInit (g_start part_geom) (end1 - g_start part_geom + 1)],
                case ped_geometry_set \<lparr>g_start = 0, g_length = 0, g_end = 0\<rparr>
                       (g_start part_geom) (end1 - g_start part_geom + 1) of
                  Inl e \<Rightarrow> Stop e
                | Inr (r, new_geom) \<Rightarrow> if r = 0 then Exit 1 else Continue new_geom)
               (\<lambda>new_geom.
                  bind_step
                    ([SnapToBoundaries new_geom part_geom range_start range_end],
                     case disk of
                       None \<Rightarrow> Stop Uninitialised
                     | Some d \<Rightarrow>
                         (case snap_to_boundaries new_geom (Some part_geom) d range_start range_end of
                            Inl e \<Rightarrow> Stop e
                          | Inr g \<Rightarrow> Continue g))
                    (\<lambda>new_geom1.
                       case part of
                         None \<Rightarrow> ([], Stop Uninitialised)
                       | Some p \<Rightarrow>
                           bind_step
                             ([FileSystemOpen (geom p)],
                              case ped_file_system_open dev (geom p) of
                                None \<Rightarrow> Exit 1
                              | Some fs \<Rightarrow> Continue fs)
                             (\<lambda>fs.
                                ([GetResizeConstraint, ConstraintFromStartEnd range_start range_end,
                                  ConstraintIntersect],
                                 case ped_constraint_intersect dev
                                        (ped_file_system_get_resize_constraint dev fs)
                                        (constraint_from_start_end dev range_start range_end) of
                                   None \<Rightarrow> Exit 1
                                 | Some constraint \<Rightarrow> Continue (new_geom1, fs, constraint)))))))"

text \<open>
  Lines 675 to 721: the partition geometry, the file system, the partition
  table. The final advisory about the boot loader does not change the result.
\<close>

definition main_apply :: "collaborators \<Rightarrow> opts \<Rightarrow> PedPartition option \<Rightarrow> PedGeometry \<times> PedFileSystem \<times> PedConstraint \<Rightarrow> call list \<times> unit step" where
  "main_apply dev opts0 part x =
     (case x of (new_geom, fs, constraint) \<Rightarrow>
        bind_step
          (if 0 < pnum opts0 then
             (case part of
                None \<Rightarrow> ([], Stop Uninitialised)
              | Some p \<Rightarrow>
                  (if \<not> ped_disk_set_partition_geom dev p constraint (g_start new_geom) (g_end new_geom)
                   then ([SetPartitionGeom (g_start new_geom) (g_end new_geom) False, FileSystemClose],
                         Exit 1)
                   else ([SetPartitionGeom (g_start new_geom) (g_end new_geom) True], Continue ())))
           else ([], Continue ()))
          (\<lambda>_.
             if \<not> ped_file_system_resize dev fs new_geom
             then ([FileSystemResize new_geom False], Exit 1)
             else
               bind_step
                 ([FileSystemResize new_geom True]
                    @ (if 0 < pnum opts0 then [PartitionSetSystem (fs_type_name fs)] else [])
                    @ [FileSystemClose],
                  Continue ())
                 (\<lambda>_.
                    if 0 < pnum opts0 then
                      (if \<not> ped_disk_commit dev then ([DiskCommit False], Exit 1)
                       else ([DiskCommit True], Exit 0))
                    else ([], Exit 0))))"

definition main_resize :: "collaborators \<Rightarrow> opts \<Rightarrow> PedDisk option \<Rightarrow> PedPartition option \<Rightarrow> PedGeometry \<Rightarrow> call list \<times> unit step" where
  "main_resize dev opts0 disk part part_geom =
     bind_step (ped_geometry_new (g_start part_geom) 1)
       (\<lambda>range_start.
          bind_step (main_end_range dev opts0 part_geom)
            (\<lambda>er.
               bind_step (main_constraint dev disk part part_geom range_start er)
                 (main_apply dev opts0 part)))"

text \<open>The calls that change the partition geometry or commit the table.\<close>

fun mutating :: "call \<Rightarrow> bool" where
  "mutating (SetPartitionGeom s e b) = True"
| "mutating (DiskCommit b) = True"
| "mutating _ = False"

text \<open>The end range that a call of the snapper or of the constraint builder is given.\<close>

fun uses_end_range :: "call \<Rightarrow> PedGeometry option" where
  "uses_end_range (SnapToBoundaries n ol rs re) = Some re"
| "uses_end_range (ConstraintFromStartEnd rs re) = Some re"
| "uses_end_range _ = None"

section \<open>Properties of the size parser\<close>

lemma digits_val_nonneg:
  "0 \<le> acc \<Longrightarrow> list_all isdigit ds \<Longrightarrow> 0 \<le> digits_val acc ds"
  by (induction ds arbitrary: acc) (auto simp: isdigit_def digit_val_def)

lemma isdigit_not_isspace: "isdigit c \<Longrightarrow> \<not> isspace c"
  by (auto simp: isdigit_def isspace_def)

lemma isdigit_not_sign: "isdigit c \<Longrightarrow> c \<noteq> CHR ''-'' \<and> c \<noteq> CHR ''+'' \<and> c \<noteq> CHR ''m''"
  by (auto simp: isdigit_def)

lemma strtoll_digits:
  assumes "ds \<noteq> []" and "list_all isdigit ds"
    and "sfx = [] \<or> \<not> isdigit (hd sfx)"
    and "digits_val 0 ds \<le> LLONG_MAX"
  shows "strtoll (ds @ sfx) = (digits_val 0 ds, sfx, False)"
proof -
  obtain d ds' where ds: "ds = d # ds'"
    using assms(1) by (cases ds) auto
  have d: "isdigit d" using assms(2) ds by simp
  have all: "\<And>x. x \<in> set ds \<Longrightarrow> isdigit x"
    using assms(2) by (simp add: list_all_iff)
  have sfx: "takeWhile isdigit sfx = []" "dropWhile isdigit sfx = sfx"
    using assms(3) by (cases sfx; simp)+
  have tw: "takeWhile isdigit (ds @ sfx) = ds"
    using all sfx by (simp add: takeWhile_append2)
  have dw: "dropWhile isdigit (ds @ sfx) = sfx"
    using all sfx by (simp add: dropWhile_append2)
  have sp: "dropWhile isspace (ds @ sfx) = ds @ sfx"
    using d ds isdigit_not_isspace by simp
  have sg: "hd (ds @ sfx) \<noteq> CHR ''-''" "hd (ds @ sfx) \<noteq> CHR ''+''"
    using d ds isdigit_not_sign by auto
  have lo: "\<not> digits_val 0 ds < LLONG_MIN"
    using digits_val_nonneg [of 0 ds] assms(2) by (simp add: LLONG_MIN_def)
  show ?thesis
    unfolding strtoll_def sp using sg tw dw lo assms(1,4)
    by (simp add: Let_def)
qed

lemma not_max_digits:
  assumes "ds \<noteq> []" and "list_all isdigit ds"
  shows "take (length MAX_SIZE_STR) (ds @ sfx) \<noteq> MAX_SIZE_STR"
proof -
  obtain d ds' where ds: "ds = d # ds'"
    using assms(1) by (cases ds) auto
  have "d \<noteq> CHR ''m''" using assms(2) ds isdigit_not_sign by simp
  then show ?thesis by (simp add: ds MAX_SIZE_STR_def)
qed

lemma get_size_digits:
  assumes "errno \<noteq> ERANGE" and "ds \<noteq> []" and "list_all isdigit ds"
    and "0 < digits_val 0 ds" and "digits_val 0 ds \<le> LLONG_MAX"
    and "sfx = [] \<or> \<not> isdigit (hd sfx)"
  shows "get_size errno (ds @ sfx) =
     (if sfx = [] then Inr (digits_val 0 ds)
      else
             (case (if length sfx = 2 \<and> sfx ! 1 = CHR ''i'' then Inr 1024
                    else if 1 < length sfx then Inl (Usage 1)
                    else Inr 1000) of
                Inl e \<Rightarrow> Inl e
              | Inr prefix_kind \<Rightarrow>
                  (if hd sfx = CHR ''G''
                     then Inr (mul_ll (mul_ll (mul_ll (digits_val 0 ds) prefix_kind) prefix_kind) prefix_kind)
                   else if hd sfx = CHR ''M''
                     then Inr (mul_ll (mul_ll (digits_val 0 ds) prefix_kind) prefix_kind)
                   else if hd sfx = CHR ''k''
                     then Inr (mul_ll (digits_val 0 ds) prefix_kind)
                   else Inl (Usage 1))))"
  unfolding get_size_def
  using not_max_digits [OF assms(2,3), of sfx] strtoll_digits [OF assms(2,3,6,5)] assms(1,4)
  by (simp add: Let_def)

text \<open>
  The unit ladder when \<^verbatim>\<open>errno\<close> is not \<^verbatim>\<open>ERANGE\<close> on entry: \<open>get_size\<close> maps
  \<^verbatim>\<open>"10k"\<close> to 10000, \<^verbatim>\<open>"10ki"\<close> to 10240 and \<^verbatim>\<open>"1Gi"\<close> to 1073741824. For every
  run of digits with a positive value in the range of \<^verbatim>\<open>long long\<close>, the bare
  digits give that value, and a suffix multiplies it step by step down the unit
  ladder: \<^verbatim>\<open>G\<close> applies the step of \<^verbatim>\<open>M\<close> and then the step of \<^verbatim>\<open>k\<close>, each step
  by 1000, and by 1024 for \<^verbatim>\<open>ki\<close>, \<^verbatim>\<open>Mi\<close>, \<^verbatim>\<open>Gi\<close>.
\<close>

lemma get_size_unit_ladder:
  assumes "errno \<noteq> ERANGE"
  shows "get_size errno ''10k'' = Inr 10000
       \<and> get_size errno ''10ki'' = Inr 10240
       \<and> get_size errno ''1Gi'' = Inr 1073741824
       \<and> (\<forall>ds. ds \<noteq> [] \<and> list_all isdigit ds \<and> 0 < digits_val 0 ds \<and> digits_val 0 ds \<le> LLONG_MAX \<longrightarrow>
            get_size errno ds = Inr (digits_val 0 ds)
          \<and> get_size errno (ds @ ''k'') = Inr (mul_ll (digits_val 0 ds) 1000)
          \<and> get_size errno (ds @ ''M'') = Inr (mul_ll (mul_ll (digits_val 0 ds) 1000) 1000)
          \<and> get_size errno (ds @ ''G'') = Inr (mul_ll (mul_ll (mul_ll (digits_val 0 ds) 1000) 1000) 1000)
          \<and> get_size errno (ds @ ''ki'') = Inr (mul_ll (digits_val 0 ds) 1024)
          \<and> get_size errno (ds @ ''Mi'') = Inr (mul_ll (mul_ll (digits_val 0 ds) 1024) 1024)
          \<and> get_size errno (ds @ ''Gi'') = Inr (mul_ll (mul_ll (mul_ll (digits_val 0 ds) 1024) 1024) 1024))"
proof -
  have gen: "get_size errno ds = Inr (digits_val 0 ds)
          \<and> get_size errno (ds @ ''k'') = Inr (mul_ll (digits_val 0 ds) 1000)
          \<and> get_size errno (ds @ ''M'') = Inr (mul_ll (mul_ll (digits_val 0 ds) 1000) 1000)
          \<and> get_size errno (ds @ ''G'') = Inr (mul_ll (mul_ll (mul_ll (digits_val 0 ds) 1000) 1000) 1000)
          \<and> get_size errno (ds @ ''ki'') = Inr (mul_ll (digits_val 0 ds) 1024)
          \<and> get_size errno (ds @ ''Mi'') = Inr (mul_ll (mul_ll (digits_val 0 ds) 1024) 1024)
          \<and> get_size errno (ds @ ''Gi'') = Inr (mul_ll (mul_ll (mul_ll (digits_val 0 ds) 1024) 1024) 1024)"
    if h: "ds \<noteq> []" "list_all isdigit ds" "0 < digits_val 0 ds" "digits_val 0 ds \<le> LLONG_MAX" for ds
  proof -
    note g = get_size_digits [OF assms h]
    have "get_size errno ds = Inr (digits_val 0 ds)"
      using g [of "[]"] by simp
    moreover have "get_size errno (ds @ ''k'') = Inr (mul_ll (digits_val 0 ds) 1000)"
      using g [of "''k''"] by (simp add: isdigit_def)
    moreover have "get_size errno (ds @ ''M'') = Inr (mul_ll (mul_ll (digits_val 0 ds) 1000) 1000)"
      using g [of "''M''"] by (simp add: isdigit_def)
    moreover have "get_size errno (ds @ ''G'') = Inr (mul_ll (mul_ll (mul_ll (digits_val 0 ds) 1000) 1000) 1000)"
      using g [of "''G''"] by (simp add: isdigit_def)
    moreover have "get_size errno (ds @ ''ki'') = Inr (mul_ll (digits_val 0 ds) 1024)"
      using g [of "''ki''"] by (simp add: isdigit_def)
    moreover have "get_size errno (ds @ ''Mi'') = Inr (mul_ll (mul_ll (digits_val 0 ds) 1024) 1024)"
      using g [of "''Mi''"] by (simp add: isdigit_def)
    moreover have "get_size errno (ds @ ''Gi'') = Inr (mul_ll (mul_ll (mul_ll (digits_val 0 ds) 1024) 1024) 1024)"
      using g [of "''Gi''"] by (simp add: isdigit_def)
    ultimately show ?thesis by simp
  qed
  have d10: "''10'' \<noteq> [] \<and> list_all isdigit ''10'' \<and> 0 < digits_val 0 ''10'' \<and> digits_val 0 ''10'' \<le> LLONG_MAX"
    by (simp add: isdigit_def digit_val_def LLONG_MAX_def)
  have d1: "''1'' \<noteq> [] \<and> list_all isdigit ''1'' \<and> 0 < digits_val 0 ''1'' \<and> digits_val 0 ''1'' \<le> LLONG_MAX"
    by (simp add: isdigit_def digit_val_def LLONG_MAX_def)
  have "get_size errno ''10k'' = Inr 10000"
    using gen [of "''10''"] d10 by (simp add: digit_val_def mul_ll_def)
  moreover have "get_size errno ''10ki'' = Inr 10240"
    using gen [of "''10''"] d10 by (simp add: digit_val_def mul_ll_def)
  moreover have "get_size errno ''1Gi'' = Inr 1073741824"
    using gen [of "''1''"] d1 by (simp add: digit_val_def mul_ll_def)
  ultimately show ?thesis using gen by blast
qed

text \<open>The ladder at \<^verbatim>\<open>errno = 0\<close>, on \<^verbatim>\<open>"10k"\<close>, \<^verbatim>\<open>"2M"\<close> and \<^verbatim>\<open>"512"\<close>.\<close>

lemma get_size_unit_ladder_examples:
  "(0::int) \<noteq> ERANGE \<and> get_size 0 ''10k'' = Inr 10000 \<and> get_size 0 ''2M'' = Inr 2000000
     \<and> get_size 0 ''512'' = Inr 512"
proof -
  have e: "(0::int) \<noteq> ERANGE" by (simp add: ERANGE_def)
  have d: "''2'' \<noteq> [] \<and> list_all isdigit ''2'' \<and> 0 < digits_val 0 ''2'' \<and> digits_val 0 ''2'' \<le> LLONG_MAX"
    by (simp add: isdigit_def digit_val_def LLONG_MAX_def)
  have d5: "''512'' \<noteq> [] \<and> list_all isdigit ''512'' \<and> 0 < digits_val 0 ''512'' \<and> digits_val 0 ''512'' \<le> LLONG_MAX"
    by (simp add: isdigit_def digit_val_def LLONG_MAX_def)
  from get_size_unit_ladder [OF e] have
    a: "get_size 0 ''10k'' = Inr 10000" and
    b: "\<forall>ds. ds \<noteq> [] \<and> list_all isdigit ds \<and> 0 < digits_val 0 ds \<and> digits_val 0 ds \<le> LLONG_MAX \<longrightarrow>
            get_size 0 ds = Inr (digits_val 0 ds)
          \<and> get_size 0 (ds @ ''k'') = Inr (mul_ll (digits_val 0 ds) 1000)
          \<and> get_size 0 (ds @ ''M'') = Inr (mul_ll (mul_ll (digits_val 0 ds) 1000) 1000)
          \<and> get_size 0 (ds @ ''G'') = Inr (mul_ll (mul_ll (mul_ll (digits_val 0 ds) 1000) 1000) 1000)
          \<and> get_size 0 (ds @ ''ki'') = Inr (mul_ll (digits_val 0 ds) 1024)
          \<and> get_size 0 (ds @ ''Mi'') = Inr (mul_ll (mul_ll (digits_val 0 ds) 1024) 1024)
          \<and> get_size 0 (ds @ ''Gi'') = Inr (mul_ll (mul_ll (mul_ll (digits_val 0 ds) 1024) 1024) 1024)"
    by blast+
  have "get_size 0 ''2M'' = Inr 2000000"
    using b [rule_format, of "''2''"] d by (simp add: digit_val_def mul_ll_def)
  moreover have "get_size 0 ''512'' = Inr 512"
    using b [rule_format, of "''512''"] d5 by (simp add: digit_val_def mul_ll_def)
  ultimately show ?thesis using e a by simp
qed

text \<open>
  Claim C8. The claim gives \<^verbatim>\<open>parse("10k") == 10000\<close> without a condition. The code
  tests \<^verbatim>\<open>errno == ERANGE\<close> after \<^verbatim>\<open>strtoll\<close> and never sets \<^verbatim>\<open>errno\<close> to 0 before
  the call. A partition number that does not fit (\<^verbatim>\<open>-n 99999999999999999999\<close>)
  leaves \<^verbatim>\<open>ERANGE\<close> behind in \<^verbatim>\<open>atoi\<close>, and a following \<^verbatim>\<open>-s 10k\<close>, \<^verbatim>\<open>-s 10ki\<close>
  or \<^verbatim>\<open>-s 1Gi\<close> is refused with \<^verbatim>\<open>usage(1)\<close>.
\<close>

theorem get_size_stale_errno:
  "atoi_errno 0 ''99999999999999999999'' = ERANGE
   \<and> get_size ERANGE ''10k'' = Inl (Usage 1)
   \<and> get_size ERANGE ''10ki'' = Inl (Usage 1)
   \<and> get_size ERANGE ''1Gi'' = Inl (Usage 1)"
  by (simp add: atoi_errno_def get_size_def strtoll_def isdigit_def isspace_def digit_val_def
      MAX_SIZE_STR_def LLONG_MAX_def LLONG_MIN_def)

text \<open>
  Claim C7. The claim says that only the text \<^verbatim>\<open>"max"\<close> itself yields the MAX
  sentinel and that \<^verbatim>\<open>"maxfoo"\<close> goes on to numeric parsing. The code compares
  three bytes only, so \<^verbatim>\<open>"maxfoo"\<close> returns the sentinel \<^verbatim>\<open>LLONG_MAX\<close>, whatever
  follows the prefix.
\<close>

theorem get_size_max_prefix: "get_size errno ''maxfoo'' = Inr LLONG_MAX"
  by (simp add: get_size_def MAX_SIZE_STR_def)

text \<open>
  The parts of the error behaviour that the code does implement: outside the
  \<^verbatim>\<open>max\<close> prefix, a leading integer that is zero, negative, missing or out of the
  range of \<^verbatim>\<open>long long\<close>, and every suffix other than the six units, end in
  \<^verbatim>\<open>usage(1)\<close>.
\<close>

lemma get_size_rejects:
  assumes "take (length MAX_SIZE_STR) s \<noteq> MAX_SIZE_STR"
    and "strtoll s = (v, sfx, range_error)"
    and "v \<le> 0 \<or> range_error \<or> sfx \<notin> {[], ''k'', ''M'', ''G'', ''ki'', ''Mi'', ''Gi''}"
  shows "get_size errno s = Inl (Usage 1)"
proof (cases "v \<le> 0 \<or> range_error")
  case True
  then show ?thesis
    using assms(1,2) by (auto simp: get_size_def)
next
  case False
  then have bad: "sfx \<notin> {[], ''k'', ''M'', ''G'', ''ki'', ''Mi'', ''Gi''}"
    using assms(3) by blast
  then obtain a rest where sfx: "sfx = a # rest" by (cases sfx) auto
  show ?thesis
  proof (cases "errno = ERANGE")
    case True
    then show ?thesis using assms(1,2) False by (simp add: get_size_def)
  next
    case ok: False
    show ?thesis
    proof (cases rest)
      case Nil
      then have "a \<noteq> CHR ''G''" "a \<noteq> CHR ''M''" "a \<noteq> CHR ''k''"
        using bad sfx by auto
      then show ?thesis
        using assms(1,2) False ok sfx Nil by (simp add: get_size_def)
    next
      case (Cons b rest')
      show ?thesis
      proof (cases "rest' = [] \<and> b = CHR ''i''")
        case True
        then have "a \<noteq> CHR ''G''" "a \<noteq> CHR ''M''" "a \<noteq> CHR ''k''"
          using bad sfx Cons by auto
        then show ?thesis
          using assms(1,2) False ok sfx Cons True by (simp add: get_size_def)
      next
        case False
        then have "\<not> (length sfx = 2 \<and> sfx ! 1 = CHR ''i'')" "1 < length sfx"
          using sfx Cons by auto
        then show ?thesis
          using assms(1,2) \<open>\<not> (v \<le> 0 \<or> range_error)\<close> ok sfx
          by (simp add: get_size_def)
      qed
    qed
  qed
qed

lemma get_size_rejects_examples:
  "get_size errno ''0'' = Inl (Usage 1)"
  "get_size errno ''-5'' = Inl (Usage 1)"
  "get_size errno ''10x'' = Inl (Usage 1)"
  "get_size errno ''10kik'' = Inl (Usage 1)"
  "get_size errno ''9223372036854775808'' = Inl (Usage 1)"
  by (simp_all add: get_size_def strtoll_def isdigit_def isspace_def digit_val_def
      MAX_SIZE_STR_def LLONG_MAX_def LLONG_MIN_def)

text \<open>
  Claim C9. The claim says that an overflow produced by the suffix
  multiplications fails. The code tests \<^verbatim>\<open>ERANGE\<close> for the leading integer only:
  on \<^verbatim>\<open>"10000000000G"\<close> the three multiplications by 1000 pass \<open>2^63\<close> and the
  parser returns the wrapped, negative value instead of failing.
\<close>

theorem get_size_suffix_overflow:
  "get_size 0 ''10000000000G'' = Inr (- 8446744073709551616)"
  by (simp add: get_size_def strtoll_def isdigit_def isspace_def digit_val_def MAX_SIZE_STR_def LLONG_MAX_def LLONG_MIN_def ERANGE_def mul_ll_def)


section \<open>Properties of the device path analysis\<close>

lemma scan_digits_back_append:
  "scan_digits_back (xs @ ys) (length xs) =
     (if list_all isdigit xs then Inl OutOfBounds
      else Inr (length xs - length (takeWhile isdigit (rev xs))))"
proof (induction xs arbitrary: ys rule: rev_induct)
  case Nil
  then show ?case by simp
next
  case (snoc x xs)
  have nz: "isdigit x \<Longrightarrow> x \<noteq> CHR 0x00 \<and> x \<noteq> CHR ''/''"
    by (auto simp: isdigit_def)
  have at: "((xs @ [x]) @ ys) ! length xs = x"
    by (simp add: nth_append)
  have step: "scan_digits_back ((xs @ [x]) @ ys) (length (xs @ [x])) =
      (if isdigit x then scan_digits_back (xs @ (x # ys)) (length xs) else Inr (Suc (length xs)))"
    using nz at by auto
  show ?case
    unfolding step using snoc.IH [of "x # ys"] by (auto simp: Suc_diff_le length_takeWhile_le)
qed

lemma scan_digits_back_whole:
  "scan_digits_back dev (length dev) =
     (if list_all isdigit dev then Inl OutOfBounds
      else Inr (length dev - length (trailing_digits dev)))"
  using scan_digits_back_append [of dev "[]"] by (simp add: trailing_digits_def)

lemma drop_trailing_digits:
  "drop (length dev - length (trailing_digits dev)) dev = trailing_digits dev"
proof -
  have "rev (takeWhile isdigit (rev dev) @ dropWhile isdigit (rev dev)) = dev"
    by (simp only: takeWhile_dropWhile_id rev_rev_ident)
  then have split: "dev = rev (dropWhile isdigit (rev dev)) @ trailing_digits dev"
    by (simp only: rev_append trailing_digits_def)
  have len: "length dev - length (trailing_digits dev) = length (rev (dropWhile isdigit (rev dev)))"
    using arg_cong [OF split, of length] by simp
  show ?thesis
    unfolding len using split
    by (metis append_eq_conv_conj)
qed

lemma get_partnum_trailing:
  assumes "\<not> list_all isdigit dev"
  shows "get_partnum dev =
     Inr (if atoi (trailing_digits dev) \<noteq> 0 then atoi (trailing_digits dev) else 1)"
  using assms
  by (simp add: get_partnum_def scan_digits_back_whole drop_trailing_digits Let_def)

lemma trailing_digits_all: "list_all isdigit (trailing_digits dev)"
  unfolding trailing_digits_def list_all_iff using set_takeWhileD by fastforce

lemma atoi_digits:
  assumes "list_all isdigit ds" and "0 < digits_val 0 ds" and "digits_val 0 ds < 2 ^ 31"
  shows "atoi ds = digits_val 0 ds"
proof -
  have ne: "ds \<noteq> []" using assms(2) by auto
  have "digits_val 0 ds \<le> LLONG_MAX" using assms(3) by (simp add: LLONG_MAX_def)
  then have "strtoll (ds @ []) = (digits_val 0 ds, [], False)"
    using strtoll_digits [OF ne assms(1), of "[]"] by simp
  then show ?thesis
    using assms(2,3) by (simp add: atoi_def to_int32_def)
qed

lemma atoi_empty: "atoi [] = 0"
  by (simp add: atoi_def strtoll_def to_int32_def)

lemma S_ISBLK_not_S_ISCHR: "S_ISBLK m \<Longrightarrow> \<not> S_ISCHR m"
  by (simp add: S_ISBLK_def S_ISCHR_def)

lemma trailing_digits_length: "length (trailing_digits dev) \<le> length dev"
  unfolding trailing_digits_def using length_takeWhile_le [of isdigit "rev dev"] by simp

text \<open>
  A path that is a block device, is not made of digits only and ends in at least
  one digit, with no partition number given and a device name that can be
  probed: \<open>get_device\<close> succeeds and sets the partition number from the trailing
  digits, to their value when it is a positive \<^verbatim>\<open>int\<close> and to 1 when they read as
  zero.
\<close>

lemma get_device_partnum_from_digits:
  assumes "pnum opts0 < 0"
    and "stat e dev = Some m" and "S_ISBLK m"
    and "\<not> list_all isdigit dev" and "trailing_digits dev \<noteq> []"
    and "probe_device e (devname_of dev (length dev - length (trailing_digits dev)))"
  shows "\<exists>opts'. get_device e opts0 dev = Inr (1, opts')
      \<and> pnum opts' = (if atoi (trailing_digits dev) \<noteq> 0 then atoi (trailing_digits dev) else 1)
      \<and> (0 < digits_val 0 (trailing_digits dev) \<and> digits_val 0 (trailing_digits dev) < 2 ^ 31
           \<longrightarrow> pnum opts' = digits_val 0 (trailing_digits dev))
      \<and> (atoi (trailing_digits dev) = 0 \<longrightarrow> pnum opts' = 1 \<and> 0 < pnum opts')"
proof -
  let ?n = "if atoi (trailing_digits dev) \<noteq> 0 then atoi (trailing_digits dev) else 1"
  let ?k = "length dev - length (trailing_digits dev)"
  let ?opts' = "opts0\<lparr>device := None, fullpath := Some dev, pnum := ?n,
                      device := Some (devname_of dev ?k)\<rparr>"
  have "0 < length (trailing_digits dev)" using assms(5) by simp
  moreover have "0 < length dev" using assms(4) by (cases dev) auto
  ultimately have inb: "in_buffer (length dev) ?k"
    unfolding in_buffer_def by linarith
  have run: "get_device e opts0 dev = Inr (1, ?opts')"
    unfolding get_device_def
    using assms S_ISBLK_not_S_ISCHR [OF assms(3)] get_partnum_trailing [OF assms(4)] inb
    by (simp add: scan_digits_back_whole Let_def)
  have p: "pnum ?opts' = ?n" by simp
  have v: "pnum ?opts' = digits_val 0 (trailing_digits dev)"
    if "0 < digits_val 0 (trailing_digits dev)" "digits_val 0 (trailing_digits dev) < 2 ^ 31"
    using atoi_digits [OF trailing_digits_all that] that by simp
  have z: "pnum ?opts' = 1 \<and> 0 < pnum ?opts'"
    if "atoi (trailing_digits dev) = 0"
    using that by auto
  show ?thesis using run p v z by blast
qed

text \<open>The paths \<^verbatim>\<open>/dev/sda2\<close> and \<^verbatim>\<open>/dev/sda0\<close>: partitions 2 and 1.\<close>

lemma get_device_partnum_from_digits_examples:
  "get_device
     \<lparr>stat = (\<lambda>p. if p = ''/dev/sda2'' then Some 25008 else None),
      probe_device = (\<lambda>p. p = ''/dev/sda'')\<rparr>
     \<lparr>fullpath = None, device = None, pnum = - 1, size_bytes = 0, verbose = 0,
      progress = 0, info = 0, force_yes = 0\<rparr>
     ''/dev/sda2''
   = Inr (1, \<lparr>fullpath = Some ''/dev/sda2'', device = Some ''/dev/sda'', pnum = 2, size_bytes = 0,
      verbose = 0, progress = 0, info = 0, force_yes = 0\<rparr>)"
  "get_device
     \<lparr>stat = (\<lambda>p. if p = ''/dev/sda0'' then Some 25008 else None),
      probe_device = (\<lambda>p. p = ''/dev/sda'')\<rparr>
     \<lparr>fullpath = None, device = None, pnum = - 1, size_bytes = 0, verbose = 0,
      progress = 0, info = 0, force_yes = 0\<rparr>
     ''/dev/sda0''
   = Inr (1, \<lparr>fullpath = Some ''/dev/sda0'', device = Some ''/dev/sda'', pnum = 1, size_bytes = 0,
      verbose = 0, progress = 0, info = 0, force_yes = 0\<rparr>)"
  by (simp_all add: get_device_def get_partnum_def S_ISBLK_def S_ISCHR_def isdigit_def isspace_def
      devname_of_def in_buffer_def atoi_def strtoll_def to_int32_def digit_val_def
      LLONG_MAX_def LLONG_MIN_def Let_def)

text \<open>
  A block device path without trailing digits: the scan stops at the last byte,
  so \<open>k = len\<close>, and the store \<^verbatim>\<open>devname[p - dev + 1] = '\0'\<close> is one byte past the
  buffer of \<^verbatim>\<open>malloc(len)\<close> bytes.
\<close>

lemma get_device_no_digits:
  assumes "stat e dev = Some m" and "S_ISBLK m"
    and "\<not> list_all isdigit dev" and "trailing_digits dev = []"
  shows "get_device e opts0 dev = Inl OutOfBounds"
  unfolding get_device_def
  using assms S_ISBLK_not_S_ISCHR [OF assms(2)]
  by (simp add: scan_digits_back_whole in_buffer_def Let_def)

text \<open>
  Claim C10. The claim says that a path whose trailing digits are absent gets
  partition number 1. \<open>get_partnum\<close> alone computes 1 for \<^verbatim>\<open>/dev/sdb\<close>, but in
  \<open>get_device\<close> the code stores past the end of \<^verbatim>\<open>devname\<close> on every such path
  before it reaches \<open>get_partnum\<close>: the buffer is one byte short.
\<close>

theorem get_device_no_digits_overflow:
  "get_partnum ''/dev/sdb'' = Inr 1
   \<and> get_device
     \<lparr>stat = (\<lambda>p. if p = ''/dev/sdb'' then Some 25008 else None),
      probe_device = (\<lambda>p. p = ''/dev/sdb'')\<rparr>
     \<lparr>fullpath = None, device = None, pnum = - 1, size_bytes = 0, verbose = 0,
      progress = 0, info = 0, force_yes = 0\<rparr>
     ''/dev/sdb''
   = Inl OutOfBounds"
  by (simp add: get_device_def get_partnum_def S_ISBLK_def S_ISCHR_def isdigit_def isspace_def
      in_buffer_def atoi_def strtoll_def to_int32_def Let_def)

section \<open>Properties of the exception handler\<close>

lemma bit_nat_le: "bit (n::nat) k \<Longrightarrow> 2 ^ k \<le> n"
proof -
  assume "bit n k"
  then have "odd (n div 2 ^ k)" by (simp add: bit_iff_odd)
  then have "n div 2 ^ k \<noteq> 0" by (metis even_zero)
  then show ?thesis
    by (metis div_less linorder_not_less)
qed

lemma not_bit_nat_above: "(n::nat) < 2 ^ k \<Longrightarrow> k \<le> j \<Longrightarrow> \<not> bit n j"
proof
  assume a: "n < 2 ^ k" "k \<le> j" "bit n j"
  have "(2::nat) ^ k \<le> 2 ^ j" using a(2) by (simp add: power_increasing)
  with bit_nat_le [OF a(3)] a(1) show False by linarith
qed

lemma bit_nat_top: "(2::nat) ^ k \<le> n \<Longrightarrow> n < 2 ^ Suc k \<Longrightarrow> bit n k"
proof -
  assume a: "(2::nat) ^ k \<le> n" "n < 2 ^ Suc k"
  have "n div 2 ^ k < 2"
    using a(2) by (simp add: less_mult_imp_div_less mult.commute)
  moreover have "1 \<le> n div 2 ^ k"
    using a(1) by (simp add: div_greater_zero_iff Suc_le_eq)
  ultimately have "n div 2 ^ k = 1" by simp
  then show ?thesis by (simp add: bit_iff_odd)
qed

lemma and_flag_nonzero: "((m::nat) AND 2 ^ k \<noteq> 0) = bit m k"
  by (simp add: and_exp_eq_0_iff_not_bit)

lemma shl1_flag: "k < 31 \<Longrightarrow> shl1 (2 ^ k) = 2 ^ Suc k"
proof -
  assume "k < 31"
  then have "(2::nat) ^ Suc k \<le> 2 ^ 31"
    by (intro power_increasing) simp_all
  then show ?thesis by (simp add: shl1_def)
qed

lemma option_scan_hit: "i \<le> m \<Longrightarrow> m AND i \<noteq> 0 \<Longrightarrow> option_scan m i = Some i"
  by (subst option_scan.simps) simp

lemma option_scan_skip: "i \<le> m \<Longrightarrow> m AND i = 0 \<Longrightarrow> option_scan m i = option_scan m (shl1 i)"
  by (subst option_scan.simps) simp

lemma option_scan_end: "\<not> i \<le> m \<Longrightarrow> option_scan m i = Some 0"
  by (subst option_scan.simps) simp

lemma scan_result_hit: "k < 32 \<Longrightarrow> bit m k \<Longrightarrow> scan_result m k (2 ^ k)"
  unfolding scan_result_def by auto

lemma scan_result_end: "m < 2 ^ k \<Longrightarrow> scan_result m k 0"
  unfolding scan_result_def using not_bit_nat_above [of m k] by auto

lemma scan_result_skip: "\<not> bit m k \<Longrightarrow> scan_result m (Suc k) r \<Longrightarrow> scan_result m k r"
  unfolding scan_result_def
  by (metis Suc_leD Suc_leI le_neq_implies_less)

lemma option_scan_spec:
  assumes "m < 2 ^ 32" and "k < 32"
  shows "\<exists>r. option_scan m (2 ^ k) = Some r \<and> scan_result m k r"
  using assms(2)
proof (induction "31 - k" arbitrary: k)
  case 0
  then have k: "k = 31" by simp
  show ?case
  proof (cases "(2::nat) ^ k \<le> m")
    case True
    then have b: "bit m k" using bit_nat_top [of k m] assms(1) k by simp
    then have "option_scan m (2 ^ k) = Some (2 ^ k)"
      using True by (intro option_scan_hit) (simp_all only: and_flag_nonzero)
    then show ?thesis using scan_result_hit [OF "0.prems" b] by blast
  next
    case False
    then have "option_scan m (2 ^ k) = Some 0" "scan_result m k 0"
      by (simp_all add: option_scan_end scan_result_end)
    then show ?thesis by blast
  qed
next
  case (Suc n)
  then have k: "k < 31" "n = 31 - Suc k" "Suc k < 32" by simp_all
  show ?case
  proof (cases "(2::nat) ^ k \<le> m")
    case le: True
    show ?thesis
    proof (cases "bit m k")
      case True
      then have "option_scan m (2 ^ k) = Some (2 ^ k)"
        using le by (intro option_scan_hit) (simp_all only: and_flag_nonzero)
      then show ?thesis using scan_result_hit [OF Suc.prems True] by blast
    next
      case False
      obtain r where r: "option_scan m (2 ^ Suc k) = Some r" "scan_result m (Suc k) r"
        using Suc.hyps(1) [OF k(2) k(3)] by blast
      have "m AND 2 ^ k = 0" using False and_flag_nonzero [of m k] by simp
      then have step: "option_scan m (2 ^ k) = option_scan m (2 ^ Suc k)"
        using option_scan_skip [OF le] shl1_flag [OF k(1)] by simp
      show ?thesis using step r scan_result_skip [OF False r(2)] by simp
    qed
  next
    case False
    then have "option_scan m (2 ^ k) = Some 0" "scan_result m k 0"
      by (simp_all add: option_scan_end scan_result_end)
    then show ?thesis by blast
  qed
qed

lemma option_get_next_first:
  assumes "m < 2 ^ 32"
  shows "\<exists>r. option_get_next m 0 = Some r \<and> scan_result m 0 r"
  using option_scan_spec [OF assms, of 0]
  by (simp add: option_get_next_def PED_EXCEPTION_OPTION_FIRST_def PED_EXCEPTION_FIX_def)

lemma option_get_next_flag:
  assumes "m < 2 ^ 32" and "j < 31"
  shows "\<exists>r. option_get_next m (2 ^ j) = Some r \<and> scan_result m (Suc j) r"
  using option_scan_spec [OF assms(1), of "Suc j"] assms(2) shl1_flag [OF assms(2)]
  by (simp add: option_get_next_def)


lemma bit_flag_nat: "bit ((2::nat) ^ k) j = (j = k)"
  by (auto simp: bit_exp_iff)

lemma single_flag_eq:
  assumes "bit (m::nat) j" and "\<forall>i<j. \<not> bit m i" and "\<forall>i\<ge>Suc j. \<not> bit m i"
  shows "m = 2 ^ j"
proof (rule bit_eqI)
  fix n
  show "bit m n = bit ((2::nat) ^ j) n"
    using assms by (cases "n < j"; cases "n = j") (auto simp: bit_flag_nat Suc_le_eq)
qed

lemma flag_below: "bit (m::nat) j \<Longrightarrow> m < 2 ^ k \<Longrightarrow> j < k"
  using not_bit_nat_above [of m k j] by (cases "j < k") auto

text \<open>
  Claim C5. For an INFORMATION or WARNING event under \<^verbatim>\<open>force_yes\<close>, with a set of
  options below \<open>2^31\<close> (the seven defined flags are below 128), the handler
  returns without reading input or writing a prompt: IGNORE when the set is
  exactly IGNORE and CANCEL, the option itself when the set is a single flag, and
  UNHANDLED otherwise.
\<close>

theorem fatresize_handler_force_yes:
  assumes "ex_type ex = PED_EXCEPTION_INFORMATION \<or> ex_type ex = PED_EXCEPTION_WARNING"
    and "force_yes opts0 \<noteq> 0"
    and "options ex < 2 ^ 31"
  shows "fatresize_handler opts0 ex inp out =
     Some (if options ex = PED_EXCEPTION_IGNORE_CANCEL then PED_EXCEPTION_IGNORE
           else if \<exists>k. options ex = 2 ^ k then options ex
           else PED_EXCEPTION_UNHANDLED, inp, out)"
proof (cases "options ex = PED_EXCEPTION_IGNORE_CANCEL")
  case True
  then show ?thesis using assms(1,2) by (simp add: fatresize_handler_def)
next
  case False
  let ?m = "options ex"
  have m32: "?m < 2 ^ 32" using assms(3) by simp
  obtain r1 where r1: "option_get_next ?m 0 = Some r1" "scan_result ?m 0 r1"
    using option_get_next_first [OF m32] by blast
  from r1(2) consider
      (none) "r1 = 0" "\<forall>j. \<not> bit ?m j"
    | (flag) j where "j < 32" "r1 = 2 ^ j" "bit ?m j" "\<forall>i<j. \<not> bit ?m i"
    unfolding scan_result_def by auto
  then show ?thesis
  proof cases
    case none
    have "\<not> (\<exists>k. ?m = 2 ^ k)"
      using none(2) bit_flag_nat by metis
    then show ?thesis
      using False assms(1,2) r1(1) none(1)
      by (simp add: fatresize_handler_def PED_EXCEPTION_UNHANDLED_def)
  next
    case flag
    have j31: "j < 31" using flag_below [OF flag(3) assms(3)] .
    obtain r2 where r2: "option_get_next ?m (2 ^ j) = Some r2" "scan_result ?m (Suc j) r2"
      using option_get_next_flag [OF m32 j31] by blast
    from r2(2) consider
        (last) "r2 = 0" "\<forall>i\<ge>Suc j. \<not> bit ?m i"
      | (more) j' where "Suc j \<le> j'" "r2 = 2 ^ j'" "bit ?m j'"
      unfolding scan_result_def by auto
    then show ?thesis
    proof cases
      case last
      have eq: "?m = 2 ^ j" using single_flag_eq [OF flag(3,4) last(2)] .
      then have "\<exists>k. ?m = 2 ^ k" by blast
      then show ?thesis
        using False assms(1,2) r1(1) r2(1) flag(2) last(1) eq
        by (simp add: fatresize_handler_def)
    next
      case more
      have "\<not> (\<exists>k. ?m = 2 ^ k)"
      proof
        assume "\<exists>k. ?m = 2 ^ k"
        then obtain k where k: "?m = 2 ^ k" by blast
        have "j = k" "j' = k" using flag(3) more(3) by (simp_all add: k bit_flag_nat)
        then show False using more(1) by simp
      qed
      moreover have "r2 \<noteq> 0" using more(2) by simp
      ultimately show ?thesis
        using False assms(1,2) r1(1) r2(1) flag(2)
        by (simp add: fatresize_handler_def)
    qed
  qed
qed

text \<open>A warning that offers OK alone, under \<^verbatim>\<open>force_yes\<close>: OK, and the input is untouched.\<close>

theorem fatresize_handler_force_yes_witness:
  "fatresize_handler
     \<lparr>fullpath = None, device = None, pnum = 1, size_bytes = 0, verbose = 0, progress = 0,
      info = 0, force_yes = 1\<rparr>
     \<lparr>message = ''m'', ex_type = PED_EXCEPTION_WARNING, options = PED_EXCEPTION_OK\<rparr> ''no'' []
   = Some (PED_EXCEPTION_OK, ''no'', [])"
proof -
  let ?o = "\<lparr>fullpath = None, device = None, pnum = 1, size_bytes = 0, verbose = 0, progress = 0,
      info = 0, force_yes = 1\<rparr>"
  let ?ex = "\<lparr>message = ''m'', ex_type = PED_EXCEPTION_WARNING, options = PED_EXCEPTION_OK\<rparr>"
  have h1: "ex_type ?ex = PED_EXCEPTION_INFORMATION \<or> ex_type ?ex = PED_EXCEPTION_WARNING" by simp
  have h2: "force_yes ?o \<noteq> 0" by simp
  have h3: "options ?ex < 2 ^ 31" by (simp add: PED_EXCEPTION_OK_def)
  have f: "\<exists>k. options ?ex = 2 ^ k"
    by (rule exI [of _ 3]) (simp add: PED_EXCEPTION_OK_def)
  have n: "options ?ex \<noteq> PED_EXCEPTION_IGNORE_CANCEL"
    by (simp add: PED_EXCEPTION_OK_def PED_EXCEPTION_IGNORE_CANCEL_def PED_EXCEPTION_IGNORE_def
        PED_EXCEPTION_CANCEL_def)
  show ?thesis
    using fatresize_handler_force_yes [OF h1 h2 h3, of "''no''" "[]"] f n by simp
qed


lemma scan_result_offered: "scan_result m k r \<Longrightarrow> offered_or_end m r"
  unfolding scan_result_def offered_or_end_def by blast

lemma scan_result_above: "scan_result m (Suc j) r \<Longrightarrow> r = 0 \<or> (\<exists>j'>j. r = 2 ^ j' \<and> bit m j')"
  unfolding scan_result_def by (auto simp: Suc_le_eq)

lemma print_prompt_returns:
  assumes "m < 2 ^ 31" and "bit m j"
  shows "\<exists>out'. print_prompt m i (2 ^ j) out = Some out'"
  using assms(2)
proof (induction "31 - j" arbitrary: j i out rule: less_induct)
  case less
  have m32: "m < 2 ^ 32" using assms(1) by simp
  have j31: "j < 31" using flag_below [OF less.prems assms(1)] .
  obtain r where r: "option_get_next m (2 ^ j) = Some r" "scan_result m (Suc j) r"
    using option_get_next_flag [OF m32 j31] by blast
  let ?out = "out @ (if 0 < i then ''/'' else [newline]) @ ped_exception_get_option_string (2 ^ j)"
  have step: "print_prompt m i (2 ^ j) out = print_prompt m (i + 1) r ?out"
    using r(1) by (subst print_prompt.simps) simp
  from scan_result_above [OF r(2)] show ?case
  proof
    assume "r = 0"
    then show ?thesis using step by (simp add: print_prompt.simps)
  next
    assume "\<exists>j'>j. r = 2 ^ j' \<and> bit m j'"
    then obtain j' where j': "j < j'" "r = 2 ^ j'" "bit m j'" by blast
    have "j' < 31" using flag_below [OF j'(3) assms(1)] .
    then have "31 - j' < 31 - j" using j'(1) by simp
    from less.hyps [OF this j'(3)] show ?thesis using step j'(2) by simp
  qed
qed

lemma print_prompt_first_returns:
  assumes "m < 2 ^ 31" and "offered_or_end m r"
  shows "\<exists>out'. print_prompt m i r out = Some out'"
proof (cases "r = 0")
  case True
  then show ?thesis by (subst print_prompt.simps) simp
next
  case False
  then obtain j where "r = 2 ^ j" "bit m j"
    using assms(2) unfolding offered_or_end_def by blast
  then show ?thesis using print_prompt_returns [OF assms(1)] by simp
qed

lemma match_option_none:
  assumes "m < 2 ^ 31" and "bit m j"
    and "\<forall>j. bit m j \<longrightarrow> \<not> strcasecmp_eq buffer (ped_exception_get_option_string (2 ^ j))"
  shows "match_option m buffer (2 ^ j) = Some 0"
  using assms(2)
proof (induction "31 - j" arbitrary: j rule: less_induct)
  case less
  have m32: "m < 2 ^ 32" using assms(1) by simp
  have j31: "j < 31" using flag_below [OF less.prems assms(1)] .
  obtain r where r: "option_get_next m (2 ^ j) = Some r" "scan_result m (Suc j) r"
    using option_get_next_flag [OF m32 j31] by blast
  have nm: "\<not> strcasecmp_eq buffer (ped_exception_get_option_string (2 ^ j))"
    using assms(3) less.prems by blast
  have step: "match_option m buffer (2 ^ j) = match_option m buffer r"
    using r(1) nm by (subst match_option.simps) simp
  from scan_result_above [OF r(2)] show ?case
  proof
    assume "r = 0"
    then show ?thesis using step by (simp add: match_option.simps)
  next
    assume "\<exists>j'>j. r = 2 ^ j' \<and> bit m j'"
    then obtain j' where j': "j < j'" "r = 2 ^ j'" "bit m j'" by blast
    have "j' < 31" using flag_below [OF j'(3) assms(1)] .
    then have "31 - j' < 31 - j" using j'(1) by simp
    from less.hyps [OF this j'(3)] show ?thesis using step j'(2) by simp
  qed
qed

lemma match_option_first_none:
  assumes "m < 2 ^ 31" and "offered_or_end m r"
    and "\<forall>j. bit m j \<longrightarrow> \<not> strcasecmp_eq buffer (ped_exception_get_option_string (2 ^ j))"
  shows "match_option m buffer r = Some 0"
proof (cases "r = 0")
  case True
  then show ?thesis by (subst match_option.simps) simp
next
  case False
  then obtain j where "r = 2 ^ j" "bit m j"
    using assms(2) unfolding offered_or_end_def by blast
  then show ?thesis using match_option_none [OF assms(1) _ assms(3)] by simp
qed

lemma getline_terminated:
  assumes "newline \<notin> set l"
  shows "getline (l @ newline # rest) = Some (l @ [newline], rest)"
proof -
  have "takeWhile (\<lambda>c. c \<noteq> newline) (l @ newline # rest)
      = l @ takeWhile (\<lambda>c. c \<noteq> newline) (newline # rest)"
    by (rule takeWhile_append2) (use assms in auto)
  then have "takeWhile (\<lambda>c. c \<noteq> newline) (l @ newline # rest) = l"
    by simp
  moreover have "dropWhile (\<lambda>c. c \<noteq> newline) (l @ newline # rest)
      = dropWhile (\<lambda>c. c \<noteq> newline) (newline # rest)"
    by (rule dropWhile_append2) (use assms in auto)
  then have "dropWhile (\<lambda>c. c \<noteq> newline) (l @ newline # rest) = newline # rest"
    by simp
  ultimately show ?thesis by (simp add: getline_def Let_def)
qed

lemma ask_for_option_eof:
  assumes "m < 2 ^ 31"
    and "\<forall>l\<in>set ls. newline \<notin> set l \<and>
           (\<forall>j. bit m j \<longrightarrow> \<not> strcasecmp_eq l (ped_exception_get_option_string (2 ^ j)))"
  shows "\<exists>out'. ask_for_option m (concat (map (\<lambda>l. l @ [newline]) ls)) out
            = Some (PED_EXCEPTION_CANCEL, [], out')"
  using assms(2)
proof (induction ls arbitrary: out)
  case Nil
  have m32: "m < 2 ^ 32" using assms(1) by simp
  obtain r where r: "option_get_next m 0 = Some r" "scan_result m 0 r"
    using option_get_next_first [OF m32] by blast
  obtain out1 where o: "print_prompt m 0 r out = Some out1"
    using print_prompt_first_returns [OF assms(1) scan_result_offered [OF r(2)]] by blast
  show ?case
    using r(1) o by (subst ask_for_option.simps) (simp add: getline_def)
next
  case (Cons l ls)
  have m32: "m < 2 ^ 32" using assms(1) by simp
  obtain r where r: "option_get_next m 0 = Some r" "scan_result m 0 r"
    using option_get_next_first [OF m32] by blast
  obtain out1 where o: "print_prompt m 0 r out = Some out1"
    using print_prompt_first_returns [OF assms(1) scan_result_offered [OF r(2)]] by blast
  have l: "newline \<notin> set l"
    "\<forall>j. bit m j \<longrightarrow> \<not> strcasecmp_eq l (ped_exception_get_option_string (2 ^ j))"
    using Cons.prems by simp_all
  let ?rest = "concat (map (\<lambda>l. l @ [newline]) ls)"
  have g: "getline (concat (map (\<lambda>l. l @ [newline]) (l # ls))) = Some (l @ [newline], ?rest)"
    using getline_terminated [OF l(1), of ?rest] by simp
  have mo: "match_option m (butlast (l @ [newline])) r = Some 0"
    using match_option_first_none [OF assms(1) scan_result_offered [OF r(2)] l(2)] by simp
  have step: "ask_for_option m (concat (map (\<lambda>l. l @ [newline]) (l # ls))) out
      = ask_for_option m ?rest (out1 @ '': '')"
    by (subst ask_for_option.simps) (simp only: r(1) o g mo option.case prod.case if_False simp_thms)
  have "\<forall>l\<in>set ls. newline \<notin> set l \<and>
           (\<forall>j. bit m j \<longrightarrow> \<not> strcasecmp_eq l (ped_exception_get_option_string (2 ^ j)))"
    using Cons.prems by simp
  from Cons.IH [OF this, of "out1 @ '': ''"] show ?case
    unfolding step .
qed

text \<open>
  Claim C6, as amended. The handler resolves to CANCEL, without reading input,
  for every event whose type is not INFORMATION or WARNING (ERROR and FATAL among
  them), whatever options are offered. In an interactive prompt (no
  \<^verbatim>\<open>force_yes\<close>) over a set of defined options it resolves to CANCEL for every
  input made of newline-terminated lines none of which is the name of an offered
  option: the whole input is read and its end is reached.
\<close>

theorem fatresize_handler_cancel:
  "(ex_type ex \<noteq> PED_EXCEPTION_INFORMATION \<and> ex_type ex \<noteq> PED_EXCEPTION_WARNING \<longrightarrow>
      fatresize_handler opts0 ex inp out = Some (PED_EXCEPTION_CANCEL, inp, out))
   \<and> ((ex_type ex = PED_EXCEPTION_INFORMATION \<or> ex_type ex = PED_EXCEPTION_WARNING)
        \<and> force_yes opts0 = 0 \<and> options ex < 128
        \<and> (\<forall>l\<in>set ls. newline \<notin> set l \<and>
              (\<forall>j. bit (options ex) j \<longrightarrow>
                 \<not> strcasecmp_eq l (ped_exception_get_option_string (2 ^ j)))) \<longrightarrow>
      (\<exists>out'. fatresize_handler opts0 ex (concat (map (\<lambda>l. l @ [newline]) ls)) out
                 = Some (PED_EXCEPTION_CANCEL, [], out')))"
proof (intro conjI impI)
  assume "ex_type ex \<noteq> PED_EXCEPTION_INFORMATION \<and> ex_type ex \<noteq> PED_EXCEPTION_WARNING"
  then show "fatresize_handler opts0 ex inp out = Some (PED_EXCEPTION_CANCEL, inp, out)"
    by (simp add: fatresize_handler_def)
next
  assume a: "(ex_type ex = PED_EXCEPTION_INFORMATION \<or> ex_type ex = PED_EXCEPTION_WARNING)
        \<and> force_yes opts0 = 0 \<and> options ex < 128
        \<and> (\<forall>l\<in>set ls. newline \<notin> set l \<and>
              (\<forall>j. bit (options ex) j \<longrightarrow>
                 \<not> strcasecmp_eq l (ped_exception_get_option_string (2 ^ j))))"
  then have m: "options ex < 2 ^ 31" by simp
  have "fatresize_handler opts0 ex (concat (map (\<lambda>l. l @ [newline]) ls)) out
      = ask_for_option (options ex) (concat (map (\<lambda>l. l @ [newline]) ls)) out"
    using a by (auto simp: fatresize_handler_def)
  then show "\<exists>out'. fatresize_handler opts0 ex (concat (map (\<lambda>l. l @ [newline]) ls)) out
                 = Some (PED_EXCEPTION_CANCEL, [], out')"
    using ask_for_option_eof [OF m, of ls out] a by simp
qed


lemmas ped_option_defs =
  PED_EXCEPTION_UNHANDLED_def PED_EXCEPTION_FIX_def PED_EXCEPTION_YES_def PED_EXCEPTION_NO_def
  PED_EXCEPTION_OK_def PED_EXCEPTION_RETRY_def PED_EXCEPTION_IGNORE_def PED_EXCEPTION_CANCEL_def
  PED_EXCEPTION_IGNORE_CANCEL_def PED_EXCEPTION_OPTION_FIRST_def

lemma foo_no_option: "\<not> strcasecmp_eq ''foo'' (ped_exception_get_option_string x)"
  by (simp add: strcasecmp_eq_def ped_exception_get_option_string_def cstr_def tolower_def)

text \<open>An ERROR that offers IGNORE and CANCEL, and a prompt that reads the line \<^verbatim>\<open>foo\<close>.\<close>

theorem fatresize_handler_cancel_witness:
  "fatresize_handler
     \<lparr>fullpath = None, device = None, pnum = 1, size_bytes = 0, verbose = 0, progress = 0,
      info = 0, force_yes = 1\<rparr>
     \<lparr>message = ''m'', ex_type = PED_EXCEPTION_ERROR, options = PED_EXCEPTION_IGNORE_CANCEL\<rparr>
     ''ignore'' []
   = Some (PED_EXCEPTION_CANCEL, ''ignore'', [])
   \<and> (\<exists>out'. fatresize_handler
     \<lparr>fullpath = None, device = None, pnum = 1, size_bytes = 0, verbose = 0, progress = 0,
      info = 0, force_yes = 0\<rparr>
     \<lparr>message = ''m'', ex_type = PED_EXCEPTION_WARNING, options = PED_EXCEPTION_IGNORE_CANCEL\<rparr>
     (''foo'' @ [newline]) []
   = Some (PED_EXCEPTION_CANCEL, [], out'))"
proof -
  let ?o1 = "\<lparr>fullpath = None, device = None, pnum = 1, size_bytes = 0, verbose = 0, progress = 0,
      info = 0, force_yes = 1\<rparr>"
  let ?o0 = "\<lparr>fullpath = None, device = None, pnum = 1, size_bytes = 0, verbose = 0, progress = 0,
      info = 0, force_yes = 0\<rparr>"
  let ?e = "\<lparr>message = ''m'', ex_type = PED_EXCEPTION_ERROR, options = PED_EXCEPTION_IGNORE_CANCEL\<rparr>"
  let ?w = "\<lparr>message = ''m'', ex_type = PED_EXCEPTION_WARNING, options = PED_EXCEPTION_IGNORE_CANCEL\<rparr>"
  have a: "ex_type ?e \<noteq> PED_EXCEPTION_INFORMATION \<and> ex_type ?e \<noteq> PED_EXCEPTION_WARNING"
    by simp
  have b: "(ex_type ?w = PED_EXCEPTION_INFORMATION \<or> ex_type ?w = PED_EXCEPTION_WARNING)
        \<and> force_yes ?o0 = 0 \<and> options ?w < 128
        \<and> (\<forall>l\<in>set [''foo'']. newline \<notin> set l \<and>
              (\<forall>j. bit (options ?w) j \<longrightarrow>
                 \<not> strcasecmp_eq l (ped_exception_get_option_string (2 ^ j))))"
    using foo_no_option by (simp add: ped_option_defs newline_def)
  have 1: "fatresize_handler ?o1 ?e ''ignore'' [] = Some (PED_EXCEPTION_CANCEL, ''ignore'', [])"
    using fatresize_handler_cancel [of ?e ?o1 "''ignore''" "[]" "[]"] a by blast
  have 2: "\<exists>out'. fatresize_handler ?o0 ?w (concat (map (\<lambda>l. l @ [newline]) [''foo''])) []
      = Some (PED_EXCEPTION_CANCEL, [], out')"
    using fatresize_handler_cancel [of ?w ?o0 "[]" "[]" "[''foo'']"] b by blast
  show ?thesis using 1 2 by simp
qed

text \<open>
  Claim C6 as stated says that these are the only cases. They are not: a WARNING
  that offers CANCEL alone resolves to CANCEL under \<^verbatim>\<open>force_yes\<close>, and a prompt
  resolves to CANCEL when the line \<^verbatim>\<open>cancel\<close> is read, with input still left.
\<close>

theorem fatresize_handler_cancel_counterexample:
  "fatresize_handler
     \<lparr>fullpath = None, device = None, pnum = 1, size_bytes = 0, verbose = 0, progress = 0,
      info = 0, force_yes = 1\<rparr>
     \<lparr>message = ''m'', ex_type = PED_EXCEPTION_WARNING, options = PED_EXCEPTION_CANCEL\<rparr>
     [] []
   = Some (PED_EXCEPTION_CANCEL, [], [])
   \<and> fatresize_handler
     \<lparr>fullpath = None, device = None, pnum = 1, size_bytes = 0, verbose = 0, progress = 0,
      info = 0, force_yes = 0\<rparr>
     \<lparr>message = ''m'', ex_type = PED_EXCEPTION_WARNING, options = PED_EXCEPTION_IGNORE_CANCEL\<rparr>
     (''cancel'' @ [newline] @ ''ignore'' @ [newline]) []
   = Some (PED_EXCEPTION_CANCEL, ''ignore'' @ [newline], [newline] @ ''Ignore/Cancel: '')"
proof -
  have sc: "option_scan 64 1 = Some 64" "option_scan 64 128 = Some 0"
       "option_scan 96 1 = Some 32" "option_scan 96 64 = Some 64" "option_scan 96 128 = Some 0"
    by (simp_all add: option_scan.simps shl1_def)
  have nx: "option_get_next 64 0 = Some 64" "option_get_next 64 64 = Some 0"
       "option_get_next 96 0 = Some 32" "option_get_next 96 32 = Some 64" "option_get_next 96 64 = Some 0"
    using sc by (simp_all add: option_get_next_def shl1_def ped_option_defs)
  have 1: "fatresize_handler
     \<lparr>fullpath = None, device = None, pnum = 1, size_bytes = 0, verbose = 0, progress = 0,
      info = 0, force_yes = 1\<rparr>
     \<lparr>message = ''m'', ex_type = PED_EXCEPTION_WARNING, options = PED_EXCEPTION_CANCEL\<rparr>
     [] [] = Some (PED_EXCEPTION_CANCEL, [], [])"
    using nx by (simp add: fatresize_handler_def ped_option_defs)
  have pp: "print_prompt 96 0 32 [] = Some ([newline] @ ''Ignore/Cancel'')"
    using nx by (simp add: print_prompt.simps ped_exception_get_option_string_def ped_option_defs)
  have gl: "getline (''cancel'' @ [newline] @ ''ignore'' @ [newline])
      = Some (''cancel'' @ [newline], ''ignore'' @ [newline])"
    by (simp add: getline_def newline_def)
  have mo: "match_option 96 ''cancel'' 32 = Some 64"
    using nx by (simp add: match_option.simps ped_exception_get_option_string_def ped_option_defs
        strcasecmp_eq_def cstr_def tolower_def char_of_def bit_Suc_0_iff)
  have 2: "ask_for_option 96 (''cancel'' @ [newline] @ ''ignore'' @ [newline]) []
      = Some (64, ''ignore'' @ [newline], [newline] @ ''Ignore/Cancel: '')"
    using nx pp gl mo by (subst ask_for_option.simps) (simp add: ped_option_defs)
  show ?thesis
    using 1 2 by (simp add: fatresize_handler_def ped_option_defs)
qed


section \<open>Properties of the boundary snapper\<close>

lemma try_snap3:
  "try_snap s r [a, b, c, - 1] =
     (if a = - 1 then Inr s
      else if \<not> inside r s then Inl AssertFailed
      else if inside r a then Inr a
      else if b = - 1 then Inr s
      else if inside r b then Inr b
      else if c = - 1 then Inr s
      else if inside r c then Inr c
      else Inr s)"
  by (simp add: snap_def)

lemma try_snap2:
  "try_snap s r [b, c, - 1] =
     (if b = - 1 then Inr s
      else if \<not> inside r s then Inl AssertFailed
      else if inside r b then Inr b
      else if c = - 1 then Inr s
      else if inside r c then Inr c
      else Inr s)"
  by (simp add: snap_def)

lemma lookup_in_disk:
  assumes "ped_disk_get_partition_by_sector disk s = Some p"
  shows "p \<in> set disk" and "inside (geom p) s" and "part_type p \<noteq> PED_PARTITION_EXTENDED"
  using assms unfolding ped_disk_get_partition_by_sector_def
  by (auto simp: find_Some_iff)

lemma lookup_exists:
  assumes "p \<in> set disk" and "inside (geom p) t" and "part_type p \<noteq> PED_PARTITION_EXTENDED"
  shows "\<exists>q. ped_disk_get_partition_by_sector disk t = Some q"
proof (cases "ped_disk_get_partition_by_sector disk t")
  case None
  then show ?thesis
    using assms unfolding ped_disk_get_partition_by_sector_def by (auto simp: find_None_iff)
next
  case (Some q)
  then show ?thesis by blast
qed

lemma lookup_same:
  assumes "disk_disjoint disk"
    and "ped_disk_get_partition_by_sector disk s = Some p"
    and "inside (geom p) t"
  shows "ped_disk_get_partition_by_sector disk t = Some p"
proof -
  note p = lookup_in_disk [OF assms(2)]
  obtain q where q: "ped_disk_get_partition_by_sector disk t = Some q"
    using lookup_exists [OF p(1) assms(3) p(3)] by blast
  note qq = lookup_in_disk [OF q]
  have "q = p"
  proof (rule ccontr)
    assume "q \<noteq> p"
    then have "g_end (geom p) < g_start (geom q) \<or> g_end (geom q) < g_start (geom p)"
      using assms(1) p(1,3) qq(1,3) unfolding disk_disjoint_def by blast
    then show False
      using assms(3) qq(2) unfolding ped_geometry_test_sector_inside_def by linarith
  qed
  then show ?thesis using q by simp
qed

lemma lookup_other:
  assumes "disk_disjoint disk"
    and "ped_disk_get_partition_by_sector disk s = Some p"
    and "ped_disk_get_partition_by_sector disk t = Some q"
    and "\<not> inside (geom p) t"
  shows "g_end (geom p) < g_start (geom q) \<or> g_end (geom q) < g_start (geom p)"
proof -
  note p = lookup_in_disk [OF assms(2)]
  note q = lookup_in_disk [OF assms(3)]
  have "p \<noteq> q" using assms(4) q(2) by auto
  then show ?thesis
    using assms(1) p(1,3) q(1,3) unfolding disk_disjoint_def by blast
qed

text \<open>The start side: a second run of \<open>try_snap\<close> keeps the start that the first run chose.\<close>

lemma start_side_stable:
  assumes dj: "disk_disjoint disk"
    and sp: "ped_disk_get_partition_by_sector disk s = Some sp"
    and run: "try_snap s r (case old of
                 Some ol \<Rightarrow> [g_start ol, g_start (geom sp), g_end (geom sp) + 1, - 1]
               | None \<Rightarrow> [g_start (geom sp), g_end (geom sp) + 1, - 1]) = Inr s1"
    and sp1: "ped_disk_get_partition_by_sector disk s1 = Some sp1"
  shows "try_snap s1 r (case old of
                 Some ol \<Rightarrow> [g_start ol, g_start (geom sp1), g_end (geom sp1) + 1, - 1]
               | None \<Rightarrow> [g_start (geom sp1), g_end (geom sp1) + 1, - 1]) = Inr s1"
proof -
  note in_sp = lookup_in_disk(2) [OF sp, unfolded ped_geometry_test_sector_inside_def]
  note in_sp1 = lookup_in_disk(2) [OF sp1, unfolded ped_geometry_test_sector_inside_def]
  have same: "s1 = s \<Longrightarrow> sp1 = sp" using sp sp1 by simp
  have at_start: "s1 = g_start (geom sp) \<Longrightarrow> sp1 = sp"
    using lookup_same [OF dj sp, of "g_start (geom sp)"] sp1 in_sp
    by (simp add: ped_geometry_test_sector_inside_def)
  have after: "s1 = g_end (geom sp) + 1 \<Longrightarrow> g_start (geom sp1) = s1"
  proof -
    assume e: "s1 = g_end (geom sp) + 1"
    then have "\<not> inside (geom sp) s1" by (simp add: ped_geometry_test_sector_inside_def)
    from lookup_other [OF dj sp sp1 this] show ?thesis using in_sp in_sp1 e by linarith
  qed
  show ?thesis
  proof (cases old)
    case None
    from run have "s1 = s \<or> (s1 = g_start (geom sp) \<and> inside r s1 \<and> inside r s \<and> s1 \<noteq> - 1)
        \<or> (s1 = g_end (geom sp) + 1 \<and> inside r s1 \<and> inside r s \<and> s1 \<noteq> - 1)"
      unfolding None option.case try_snap2 by (auto split: if_splits)
    then show ?thesis using run same at_start after
      unfolding None option.case try_snap2 by (auto split: if_splits)
  next
    case (Some ol)
    from run have "s1 = s \<or> (s1 = g_start ol \<and> inside r s1 \<and> inside r s \<and> s1 \<noteq> - 1)
        \<or> (s1 = g_start (geom sp) \<and> inside r s1 \<and> inside r s \<and> s1 \<noteq> - 1)
        \<or> (s1 = g_end (geom sp) + 1 \<and> inside r s1 \<and> inside r s \<and> s1 \<noteq> - 1)"
      unfolding Some option.case try_snap3 by (auto split: if_splits)
    then show ?thesis using run same at_start after
      unfolding Some option.case try_snap3 by (auto split: if_splits)
  qed
qed


text \<open>The end side. The partition at the chosen end may be missing: then the second run returns early.\<close>

lemma end_side_stable:
  assumes dj: "disk_disjoint disk"
    and ep: "ped_disk_get_partition_by_sector disk e = Some ep"
    and run: "try_snap e r (case old of
                 Some ol \<Rightarrow> [g_end ol, g_end (geom ep), g_start (geom ep) - 1, - 1]
               | None \<Rightarrow> [g_end (geom ep), g_start (geom ep) - 1, - 1]) = Inr e1"
    and ep1: "ped_disk_get_partition_by_sector disk e1 = Some ep1"
  shows "try_snap e1 r (case old of
                 Some ol \<Rightarrow> [g_end ol, g_end (geom ep1), g_start (geom ep1) - 1, - 1]
               | None \<Rightarrow> [g_end (geom ep1), g_start (geom ep1) - 1, - 1]) = Inr e1"
proof -
  note in_ep = lookup_in_disk(2) [OF ep, unfolded ped_geometry_test_sector_inside_def]
  note in_ep1 = lookup_in_disk(2) [OF ep1, unfolded ped_geometry_test_sector_inside_def]
  have same: "e1 = e \<Longrightarrow> ep1 = ep" using ep ep1 by simp
  have at_end: "e1 = g_end (geom ep) \<Longrightarrow> ep1 = ep"
    using lookup_same [OF dj ep, of "g_end (geom ep)"] ep1 in_ep
    by (simp add: ped_geometry_test_sector_inside_def)
  have before: "e1 = g_start (geom ep) - 1 \<Longrightarrow> g_end (geom ep1) = e1"
  proof -
    assume e: "e1 = g_start (geom ep) - 1"
    then have "\<not> inside (geom ep) e1" by (simp add: ped_geometry_test_sector_inside_def)
    from lookup_other [OF dj ep ep1 this] show ?thesis using in_ep in_ep1 e by linarith
  qed
  show ?thesis
  proof (cases old)
    case None
    from run have "e1 = e \<or> (e1 = g_end (geom ep) \<and> inside r e1 \<and> inside r e \<and> e1 \<noteq> - 1)
        \<or> (e1 = g_start (geom ep) - 1 \<and> inside r e1 \<and> inside r e \<and> e1 \<noteq> - 1)"
      unfolding None option.case try_snap2 by (auto split: if_splits)
    then show ?thesis using run same at_end before
      unfolding None option.case try_snap2 by (auto split: if_splits)
  next
    case (Some ol)
    from run have "e1 = e \<or> (e1 = g_end ol \<and> inside r e1 \<and> inside r e \<and> e1 \<noteq> - 1)
        \<or> (e1 = g_end (geom ep) \<and> inside r e1 \<and> inside r e \<and> e1 \<noteq> - 1)
        \<or> (e1 = g_start (geom ep) - 1 \<and> inside r e1 \<and> inside r e \<and> e1 \<noteq> - 1)"
      unfolding Some option.case try_snap3 by (auto split: if_splits)
    then show ?thesis using run same at_end before
      unfolding Some option.case try_snap3 by (auto split: if_splits)
  qed
qed

lemma snap_to_boundaries_result:
  assumes "snap_to_boundaries new_geom old disk sr er = Inr g1"
  shows "\<exists>sp. ped_disk_get_partition_by_sector disk (g_start new_geom) = Some sp \<and>
     ((ped_disk_get_partition_by_sector disk (g_end new_geom) = None \<and> g1 = new_geom)
      \<or> (\<exists>ep s1 e1. ped_disk_get_partition_by_sector disk (g_end new_geom) = Some ep
            \<and> try_snap (g_start new_geom) sr (case old of
                 Some ol \<Rightarrow> [g_start ol, g_start (geom sp), g_end (geom sp) + 1, - 1]
               | None \<Rightarrow> [g_start (geom sp), g_end (geom sp) + 1, - 1]) = Inr s1
            \<and> try_snap (g_end new_geom) er (case old of
                 Some ol \<Rightarrow> [g_end ol, g_end (geom ep), g_start (geom ep) - 1, - 1]
               | None \<Rightarrow> [g_end (geom ep), g_start (geom ep) - 1, - 1]) = Inr e1
            \<and> s1 \<le> e1 \<and> 0 \<le> s1
            \<and> g1 = new_geom\<lparr>g_start := s1, g_length := e1 - s1 + 1, g_end := e1\<rparr>))"
proof (cases "ped_disk_get_partition_by_sector disk (g_start new_geom)")
  case None
  then show ?thesis using assms by (simp add: snap_to_boundaries_def Let_def)
next
  case sp: (Some sp)
  show ?thesis
  proof (cases "ped_disk_get_partition_by_sector disk (g_end new_geom)")
    case None
    then show ?thesis using assms sp by (simp add: snap_to_boundaries_def Let_def)
  next
    case ep: (Some ep)
    let ?cs = "case old of
                 Some ol \<Rightarrow> [g_start ol, g_start (geom sp), g_end (geom sp) + 1, - 1]
               | None \<Rightarrow> [g_start (geom sp), g_end (geom sp) + 1, - 1]"
    let ?ce = "case old of
                 Some ol \<Rightarrow> [g_end ol, g_end (geom ep), g_start (geom ep) - 1, - 1]
               | None \<Rightarrow> [g_end (geom ep), g_start (geom ep) - 1, - 1]"
    have unf: "snap_to_boundaries new_geom old disk sr er =
        (case try_snap (g_start new_geom) sr ?cs of
           Inl e \<Rightarrow> Inl e
         | Inr start1 \<Rightarrow>
             (case try_snap (g_end new_geom) er ?ce of
                Inl e \<Rightarrow> Inl e
              | Inr end1 \<Rightarrow>
                  if \<not> start1 \<le> end1 then Inl AssertFailed
                  else (case ped_geometry_set new_geom start1 (end1 - start1 + 1) of
                          Inl e \<Rightarrow> Inl e
                        | Inr (r, g) \<Rightarrow> Inr g)))"
      unfolding snap_to_boundaries_def Let_def sp ep option.case ..
    obtain s1 where s1: "try_snap (g_start new_geom) sr ?cs = Inr s1"
      using assms unfolding unf by (cases "try_snap (g_start new_geom) sr ?cs") simp_all
    obtain e1 where e1: "try_snap (g_end new_geom) er ?ce = Inr e1"
      using assms unfolding unf s1 sum.case
      by (cases "try_snap (g_end new_geom) er ?ce") simp_all
    have fin: "(if \<not> s1 \<le> e1 then Inl AssertFailed
                else (case ped_geometry_set new_geom s1 (e1 - s1 + 1) of
                          Inl e \<Rightarrow> Inl e
                        | Inr (r, g) \<Rightarrow> Inr g)) = Inr g1"
      using assms unfolding unf s1 e1 sum.case .
    then have "s1 \<le> e1 \<and> 0 \<le> s1
        \<and> g1 = new_geom\<lparr>g_start := s1, g_length := e1 - s1 + 1, g_end := e1\<rparr>"
      by (auto simp: ped_geometry_set_def split: if_splits)
    then show ?thesis using sp ep s1 e1 by blast
  qed
qed

lemma snap_to_boundaries_stable:
  assumes "disk_disjoint disk"
    and "snap_to_boundaries new_geom old_geom disk start_range end_range = Inr g1"
    and "ped_disk_get_partition_by_sector disk (g_start g1) \<noteq> None"
  shows "snap_to_boundaries g1 old_geom disk start_range end_range = Inr g1"
proof -
  obtain sp where sp: "ped_disk_get_partition_by_sector disk (g_start new_geom) = Some sp"
    and alt: "(ped_disk_get_partition_by_sector disk (g_end new_geom) = None \<and> g1 = new_geom)
      \<or> (\<exists>ep s1 e1. ped_disk_get_partition_by_sector disk (g_end new_geom) = Some ep
            \<and> try_snap (g_start new_geom) start_range (case old_geom of
                 Some ol \<Rightarrow> [g_start ol, g_start (geom sp), g_end (geom sp) + 1, - 1]
               | None \<Rightarrow> [g_start (geom sp), g_end (geom sp) + 1, - 1]) = Inr s1
            \<and> try_snap (g_end new_geom) end_range (case old_geom of
                 Some ol \<Rightarrow> [g_end ol, g_end (geom ep), g_start (geom ep) - 1, - 1]
               | None \<Rightarrow> [g_end (geom ep), g_start (geom ep) - 1, - 1]) = Inr e1
            \<and> s1 \<le> e1 \<and> 0 \<le> s1
            \<and> g1 = new_geom\<lparr>g_start := s1, g_length := e1 - s1 + 1, g_end := e1\<rparr>)"
    using snap_to_boundaries_result [OF assms(2)] by blast
  from alt show ?thesis
  proof
    assume "ped_disk_get_partition_by_sector disk (g_end new_geom) = None \<and> g1 = new_geom"
    then show ?thesis using assms(2) by simp
  next
    assume "\<exists>ep s1 e1. ped_disk_get_partition_by_sector disk (g_end new_geom) = Some ep
            \<and> try_snap (g_start new_geom) start_range (case old_geom of
                 Some ol \<Rightarrow> [g_start ol, g_start (geom sp), g_end (geom sp) + 1, - 1]
               | None \<Rightarrow> [g_start (geom sp), g_end (geom sp) + 1, - 1]) = Inr s1
            \<and> try_snap (g_end new_geom) end_range (case old_geom of
                 Some ol \<Rightarrow> [g_end ol, g_end (geom ep), g_start (geom ep) - 1, - 1]
               | None \<Rightarrow> [g_end (geom ep), g_start (geom ep) - 1, - 1]) = Inr e1
            \<and> s1 \<le> e1 \<and> 0 \<le> s1
            \<and> g1 = new_geom\<lparr>g_start := s1, g_length := e1 - s1 + 1, g_end := e1\<rparr>"
    then obtain ep s1 e1 where
      ep: "ped_disk_get_partition_by_sector disk (g_end new_geom) = Some ep" and
      rs: "try_snap (g_start new_geom) start_range (case old_geom of
                 Some ol \<Rightarrow> [g_start ol, g_start (geom sp), g_end (geom sp) + 1, - 1]
               | None \<Rightarrow> [g_start (geom sp), g_end (geom sp) + 1, - 1]) = Inr s1" and
      re: "try_snap (g_end new_geom) end_range (case old_geom of
                 Some ol \<Rightarrow> [g_end ol, g_end (geom ep), g_start (geom ep) - 1, - 1]
               | None \<Rightarrow> [g_end (geom ep), g_start (geom ep) - 1, - 1]) = Inr e1" and
      le: "s1 \<le> e1" "0 \<le> s1" and
      g1: "g1 = new_geom\<lparr>g_start := s1, g_length := e1 - s1 + 1, g_end := e1\<rparr>"
      by blast
    have gs: "g_start g1 = s1" "g_end g1 = e1" using g1 by simp_all
    obtain sp1 where sp1: "ped_disk_get_partition_by_sector disk s1 = Some sp1"
      using assms(3) gs by auto
    have set_again: "g1\<lparr>g_start := s1, g_length := e1 - s1 + 1, g_end := s1 + (e1 - s1 + 1) - 1\<rparr> = g1"
      using g1 by simp
    show ?thesis
    proof (cases "ped_disk_get_partition_by_sector disk e1")
      case None
      then show ?thesis
        using sp1 gs by (simp add: snap_to_boundaries_def Let_def)
    next
      case (Some ep1)
      note s2 = start_side_stable [OF assms(1) sp rs sp1]
      note e2 = end_side_stable [OF assms(1) ep re Some]
      show ?thesis
        unfolding snap_to_boundaries_def Let_def gs sp1 Some option.case s2 e2 sum.case
        using le set_again by (simp add: ped_geometry_set_def)
    qed
  qed
qed


lemma snap_to_boundaries_noop_contract:
  assumes "geom_wf old" and "geom_wf new_geom"
    and "g_start new_geom = g_start old" and "g_end new_geom = g_end old"
    and "ped_disk_get_partition_by_sector disk (g_start old) \<noteq> None"
    and "ped_disk_get_partition_by_sector disk (g_end old) \<noteq> None \<longrightarrow>
           inside start_range (g_start old) \<and> inside end_range (g_end old)"
  shows "snap_to_boundaries new_geom (Some old) disk start_range end_range = Inr old"
proof -
  have len: "g_length new_geom = g_length old"
    using assms(1-4) unfolding geom_wf_def by linarith
  have eq: "new_geom = old"
    using assms(3,4) len by simp
  have pos: "0 \<le> g_start old" "g_start old \<le> g_end old"
    "g_start old \<noteq> - 1" "g_end old \<noteq> - 1"
    "g_end old - g_start old + 1 = g_length old"
    using assms(1) unfolding geom_wf_def by linarith+
  obtain sp where sp: "ped_disk_get_partition_by_sector disk (g_start old) = Some sp"
    using assms(5) by auto
  show ?thesis
  proof (cases "ped_disk_get_partition_by_sector disk (g_end old)")
    case None
    then show ?thesis using sp eq by (simp add: snap_to_boundaries_def Let_def)
  next
    case (Some ep)
    then have ins: "inside start_range (g_start old)" "inside end_range (g_end old)"
      using assms(6) by simp_all
    have s: "try_snap (g_start old) start_range
        [g_start old, g_start (geom sp), g_end (geom sp) + 1, - 1] = Inr (g_start old)"
      unfolding try_snap3 using pos ins by simp
    have e: "try_snap (g_end old) end_range
        [g_end old, g_end (geom ep), g_start (geom ep) - 1, - 1] = Inr (g_end old)"
      unfolding try_snap3 using pos ins by simp
    have set_old: "old\<lparr>g_start := g_start old, g_length := g_length old,
        g_end := g_start old + g_length old - 1\<rparr> = old"
      using pos(5) by simp
    show ?thesis
      unfolding snap_to_boundaries_def Let_def eq sp Some option.case s e sum.case
      using pos set_old by (simp add: ped_geometry_set_def)
  qed
qed

text \<open>
  With well-formed equal geometries the snapper never returns another range: it
  returns the old geometry or an assertion stops the run.
\<close>

lemma snap_to_boundaries_noop_or_assert:
  assumes "geom_wf old" and "geom_wf new_geom"
    and "g_start new_geom = g_start old" and "g_end new_geom = g_end old"
  shows "snap_to_boundaries new_geom (Some old) disk start_range end_range = Inr old
       \<or> snap_to_boundaries new_geom (Some old) disk start_range end_range = Inl AssertFailed"
proof (cases "ped_disk_get_partition_by_sector disk (g_start old)")
  case None
  then show ?thesis using assms(3) by (simp add: snap_to_boundaries_def Let_def)
next
  case sp: (Some sp)
  show ?thesis
  proof (cases "ped_disk_get_partition_by_sector disk (g_end old) \<noteq> None \<longrightarrow>
           inside start_range (g_start old) \<and> inside end_range (g_end old)")
    case True
    then show ?thesis
      using snap_to_boundaries_noop_contract [OF assms, of disk start_range end_range] sp by simp
  next
    case False
    then obtain ep where ep: "ped_disk_get_partition_by_sector disk (g_end old) = Some ep"
      and out: "\<not> inside start_range (g_start old) \<or> \<not> inside end_range (g_end old)"
      by auto
    have pos: "g_start old \<noteq> - 1" "g_end old \<noteq> - 1"
      using assms(1) unfolding geom_wf_def by linarith+
    have "snap_to_boundaries new_geom (Some old) disk start_range end_range = Inl AssertFailed"
    proof (cases "inside start_range (g_start old)")
      case False
      then have "try_snap (g_start old) start_range
          [g_start old, g_start (geom sp), g_end (geom sp) + 1, - 1] = Inl AssertFailed"
        unfolding try_snap3 using pos by simp
      then show ?thesis
        unfolding snap_to_boundaries_def Let_def assms(3,4) sp ep option.case by simp
    next
      case True
      then have s: "try_snap (g_start old) start_range
          [g_start old, g_start (geom sp), g_end (geom sp) + 1, - 1] = Inr (g_start old)"
        unfolding try_snap3 using pos by simp
      have "try_snap (g_end old) end_range
          [g_end old, g_end (geom ep), g_start (geom ep) - 1, - 1] = Inl AssertFailed"
        unfolding try_snap3 using pos out True by simp
      then show ?thesis
        unfolding snap_to_boundaries_def Let_def assms(3,4) sp ep option.case s sum.case by simp
    qed
    then show ?thesis by simp
  qed
qed

text \<open>
  Claim C3. The old geometry and the requested geometry are well formed and have
  the same start and the same end. Whenever the start lies in a partition of the
  table and, in case the end lies in a partition too, the ranges contain the
  start and the end, \<open>snap_to_boundaries\<close> returns the old geometry: same start,
  end and length. This covers the ranges that \<^verbatim>\<open>main\<close> passes, the single sector
  at the start and the single sector at the old end. For every other table and
  pair of ranges the snapper still never returns a different range: an assertion
  stops the run.
\<close>

theorem snap_to_boundaries_noop:
  assumes "geom_wf old" and "geom_wf new_geom"
    and "g_start new_geom = g_start old" and "g_end new_geom = g_end old"
  shows "(ped_disk_get_partition_by_sector disk (g_start old) \<noteq> None
          \<and> (ped_disk_get_partition_by_sector disk (g_end old) \<noteq> None \<longrightarrow>
                inside start_range (g_start old) \<and> inside end_range (g_end old)) \<longrightarrow>
            snap_to_boundaries new_geom (Some old) disk start_range end_range = Inr old)
       \<and> (ped_disk_get_partition_by_sector disk (g_start old) \<noteq> None \<longrightarrow>
            snap_to_boundaries new_geom (Some old) disk
              \<lparr>g_start = g_start old, g_length = 1, g_end = g_start old\<rparr>
              \<lparr>g_start = g_end old, g_length = 1, g_end = g_end old\<rparr> = Inr old)
       \<and> (snap_to_boundaries new_geom (Some old) disk start_range end_range = Inr old
            \<or> snap_to_boundaries new_geom (Some old) disk start_range end_range
                = Inl AssertFailed)"
proof (intro conjI impI)
  assume "ped_disk_get_partition_by_sector disk (g_start old) \<noteq> None
          \<and> (ped_disk_get_partition_by_sector disk (g_end old) \<noteq> None \<longrightarrow>
                inside start_range (g_start old) \<and> inside end_range (g_end old))"
  then show "snap_to_boundaries new_geom (Some old) disk start_range end_range = Inr old"
    using snap_to_boundaries_noop_contract [OF assms] by blast
next
  assume a: "ped_disk_get_partition_by_sector disk (g_start old) \<noteq> None"
  have "inside \<lparr>g_start = g_start old, g_length = 1, g_end = g_start old\<rparr> (g_start old)"
    "inside \<lparr>g_start = g_end old, g_length = 1, g_end = g_end old\<rparr> (g_end old)"
    by (simp_all add: ped_geometry_test_sector_inside_def)
  then show "snap_to_boundaries new_geom (Some old) disk
              \<lparr>g_start = g_start old, g_length = 1, g_end = g_start old\<rparr>
              \<lparr>g_start = g_end old, g_length = 1, g_end = g_end old\<rparr> = Inr old"
    using snap_to_boundaries_noop_contract [OF assms a] by blast
next
  show "snap_to_boundaries new_geom (Some old) disk start_range end_range = Inr old
            \<or> snap_to_boundaries new_geom (Some old) disk start_range end_range
                = Inl AssertFailed"
    by (rule snap_to_boundaries_noop_or_assert [OF assms])
qed

text \<open>A partition from sector 2048 to 1048575 behind a metadata region, with both ranges pinned.\<close>

theorem snap_to_boundaries_noop_witness:
  "snap_to_boundaries
     \<lparr>g_start = 2048, g_length = 1046528, g_end = 1048575\<rparr>
     (Some \<lparr>g_start = 2048, g_length = 1046528, g_end = 1048575\<rparr>)
     [\<lparr>geom = \<lparr>g_start = 0, g_length = 2048, g_end = 2047\<rparr>, num = - 1, part_type = 8,
        fs_type = None\<rparr>,
      \<lparr>geom = \<lparr>g_start = 2048, g_length = 1046528, g_end = 1048575\<rparr>, num = 1, part_type = 0,
        fs_type = Some ''fat32''\<rparr>]
     \<lparr>g_start = 2048, g_length = 1, g_end = 2048\<rparr>
     \<lparr>g_start = 1048575, g_length = 1, g_end = 1048575\<rparr>
   = Inr \<lparr>g_start = 2048, g_length = 1046528, g_end = 1048575\<rparr>"
proof -
  let ?g = "\<lparr>g_start = 2048, g_length = 1046528, g_end = 1048575\<rparr>"
  let ?d = "[\<lparr>geom = \<lparr>g_start = 0, g_length = 2048, g_end = 2047\<rparr>, num = - 1, part_type = 8,
        fs_type = None\<rparr>,
      \<lparr>geom = \<lparr>g_start = 2048, g_length = 1046528, g_end = 1048575\<rparr>, num = 1, part_type = 0,
        fs_type = Some ''fat32''\<rparr>]"
  have h1: "geom_wf ?g" by (simp add: geom_wf_def)
  have h3: "g_start ?g = g_start ?g" "g_end ?g = g_end ?g" by simp_all
  have h5: "ped_disk_get_partition_by_sector ?d (g_start ?g) \<noteq> None"
    by (simp add: ped_disk_get_partition_by_sector_def ped_geometry_test_sector_inside_def
        PED_PARTITION_EXTENDED_def)
  from snap_to_boundaries_noop [OF h1 h1 h3, of ?d] h5
  have "snap_to_boundaries ?g (Some ?g) ?d
              \<lparr>g_start = g_start ?g, g_length = 1, g_end = g_start ?g\<rparr>
              \<lparr>g_start = g_end ?g, g_length = 1, g_end = g_end ?g\<rparr> = Inr ?g"
    by blast
  then show ?thesis by simp
qed

text \<open>
  With a start range of a single sector, as \<^verbatim>\<open>main\<close> passes it, the start that a
  run returns is the start it was given, which lies in a partition.
\<close>

lemma snap_to_boundaries_start_fixed:
  assumes "snap_to_boundaries new_geom old_geom disk start_range end_range = Inr g1"
    and "g_start start_range = g_end start_range"
  shows "ped_disk_get_partition_by_sector disk (g_start g1) \<noteq> None"
proof -
  obtain sp where sp: "ped_disk_get_partition_by_sector disk (g_start new_geom) = Some sp"
    and alt: "(ped_disk_get_partition_by_sector disk (g_end new_geom) = None \<and> g1 = new_geom)
      \<or> (\<exists>ep s1 e1. ped_disk_get_partition_by_sector disk (g_end new_geom) = Some ep
            \<and> try_snap (g_start new_geom) start_range (case old_geom of
                 Some ol \<Rightarrow> [g_start ol, g_start (geom sp), g_end (geom sp) + 1, - 1]
               | None \<Rightarrow> [g_start (geom sp), g_end (geom sp) + 1, - 1]) = Inr s1
            \<and> try_snap (g_end new_geom) end_range (case old_geom of
                 Some ol \<Rightarrow> [g_end ol, g_end (geom ep), g_start (geom ep) - 1, - 1]
               | None \<Rightarrow> [g_end (geom ep), g_start (geom ep) - 1, - 1]) = Inr e1
            \<and> s1 \<le> e1 \<and> 0 \<le> s1
            \<and> g1 = new_geom\<lparr>g_start := s1, g_length := e1 - s1 + 1, g_end := e1\<rparr>)"
    using snap_to_boundaries_result [OF assms(1)] by blast
  from alt show ?thesis
  proof
    assume "ped_disk_get_partition_by_sector disk (g_end new_geom) = None \<and> g1 = new_geom"
    then show ?thesis using sp by simp
  next
    assume "\<exists>ep s1 e1. ped_disk_get_partition_by_sector disk (g_end new_geom) = Some ep
            \<and> try_snap (g_start new_geom) start_range (case old_geom of
                 Some ol \<Rightarrow> [g_start ol, g_start (geom sp), g_end (geom sp) + 1, - 1]
               | None \<Rightarrow> [g_start (geom sp), g_end (geom sp) + 1, - 1]) = Inr s1
            \<and> try_snap (g_end new_geom) end_range (case old_geom of
                 Some ol \<Rightarrow> [g_end ol, g_end (geom ep), g_start (geom ep) - 1, - 1]
               | None \<Rightarrow> [g_end (geom ep), g_start (geom ep) - 1, - 1]) = Inr e1
            \<and> s1 \<le> e1 \<and> 0 \<le> s1
            \<and> g1 = new_geom\<lparr>g_start := s1, g_length := e1 - s1 + 1, g_end := e1\<rparr>"
    then obtain s1 e1 where
      rs: "try_snap (g_start new_geom) start_range (case old_geom of
                 Some ol \<Rightarrow> [g_start ol, g_start (geom sp), g_end (geom sp) + 1, - 1]
               | None \<Rightarrow> [g_start (geom sp), g_end (geom sp) + 1, - 1]) = Inr s1" and
      g1: "g1 = new_geom\<lparr>g_start := s1, g_length := e1 - s1 + 1, g_end := e1\<rparr>"
      by blast
    have one: "inside start_range a \<Longrightarrow> inside start_range b \<Longrightarrow> a = b" for a b
      using assms(2) unfolding ped_geometry_test_sector_inside_def by linarith
    have "s1 = g_start new_geom"
    proof (cases old_geom)
      case None
      from rs have "s1 = g_start new_geom
          \<or> (inside start_range s1 \<and> inside start_range (g_start new_geom))"
        unfolding None option.case try_snap2 by (auto split: if_splits)
      then show ?thesis using one by blast
    next
      case (Some ol)
      from rs have "s1 = g_start new_geom
          \<or> (inside start_range s1 \<and> inside start_range (g_start new_geom))"
        unfolding Some option.case try_snap3 by (auto split: if_splits)
      then show ?thesis using one by blast
    qed
    then show ?thesis using sp g1 by simp
  qed
qed

text \<open>
  Claim C4. The partitions of the table that are not extended do not overlap, and
  a first run of \<open>snap_to_boundaries\<close> returns a range. A second run on that
  range, with the same old geometry, table and ranges, returns the same range
  whenever the start of the range lies in a partition of the table; this is so
  for every start range of a single sector, the start range that \<^verbatim>\<open>main\<close> passes.
  In no case does the second run return a different range: when the start lies in
  no partition the assertion on \<^verbatim>\<open>start_part\<close> stops the run.
\<close>

theorem snap_to_boundaries_idempotent:
  assumes "disk_disjoint disk"
    and "snap_to_boundaries new_geom old_geom disk start_range end_range = Inr g1"
  shows "(ped_disk_get_partition_by_sector disk (g_start g1) \<noteq> None \<longrightarrow>
            snap_to_boundaries g1 old_geom disk start_range end_range = Inr g1)
       \<and> (g_start start_range = g_end start_range \<longrightarrow>
            snap_to_boundaries g1 old_geom disk start_range end_range = Inr g1)
       \<and> (snap_to_boundaries g1 old_geom disk start_range end_range = Inr g1
            \<or> snap_to_boundaries g1 old_geom disk start_range end_range = Inl AssertFailed)"
proof (intro conjI impI)
  assume "ped_disk_get_partition_by_sector disk (g_start g1) \<noteq> None"
  then show "snap_to_boundaries g1 old_geom disk start_range end_range = Inr g1"
    by (rule snap_to_boundaries_stable [OF assms])
next
  assume "g_start start_range = g_end start_range"
  then have "ped_disk_get_partition_by_sector disk (g_start g1) \<noteq> None"
    by (rule snap_to_boundaries_start_fixed [OF assms(2)])
  then show "snap_to_boundaries g1 old_geom disk start_range end_range = Inr g1"
    by (rule snap_to_boundaries_stable [OF assms])
next
  show "snap_to_boundaries g1 old_geom disk start_range end_range = Inr g1
            \<or> snap_to_boundaries g1 old_geom disk start_range end_range = Inl AssertFailed"
  proof (cases "ped_disk_get_partition_by_sector disk (g_start g1)")
    case None
    then show ?thesis by (simp add: snap_to_boundaries_def Let_def)
  next
    case (Some sp1)
    then show ?thesis using snap_to_boundaries_stable [OF assms] by simp
  qed
qed

text \<open>
  Two adjacent partitions; a first run moves the start from 50 to the boundary at
  100, and the second run leaves the range from 100 to 150 as it is.
\<close>

theorem snap_to_boundaries_idempotent_witness:
  "snap_to_boundaries
     \<lparr>g_start = 50, g_length = 101, g_end = 150\<rparr>
     (Some \<lparr>g_start = 10, g_length = 141, g_end = 150\<rparr>)
     [\<lparr>geom = \<lparr>g_start = 0, g_length = 100, g_end = 99\<rparr>, num = 1, part_type = 0,
        fs_type = None\<rparr>,
      \<lparr>geom = \<lparr>g_start = 100, g_length = 100, g_end = 199\<rparr>, num = 2, part_type = 0,
        fs_type = None\<rparr>]
     \<lparr>g_start = 50, g_length = 51, g_end = 100\<rparr>
     \<lparr>g_start = 150, g_length = 1, g_end = 150\<rparr>
   = Inr \<lparr>g_start = 100, g_length = 51, g_end = 150\<rparr>
   \<and> snap_to_boundaries
     \<lparr>g_start = 100, g_length = 51, g_end = 150\<rparr>
     (Some \<lparr>g_start = 10, g_length = 141, g_end = 150\<rparr>)
     [\<lparr>geom = \<lparr>g_start = 0, g_length = 100, g_end = 99\<rparr>, num = 1, part_type = 0,
        fs_type = None\<rparr>,
      \<lparr>geom = \<lparr>g_start = 100, g_length = 100, g_end = 199\<rparr>, num = 2, part_type = 0,
        fs_type = None\<rparr>]
     \<lparr>g_start = 50, g_length = 51, g_end = 100\<rparr>
     \<lparr>g_start = 150, g_length = 1, g_end = 150\<rparr>
   = Inr \<lparr>g_start = 100, g_length = 51, g_end = 150\<rparr>"
proof -
  let ?new = "\<lparr>g_start = 50, g_length = 101, g_end = 150\<rparr>"
  let ?g1 = "\<lparr>g_start = 100, g_length = 51, g_end = 150\<rparr>"
  let ?old = "Some \<lparr>g_start = 10, g_length = 141, g_end = 150\<rparr>"
  let ?d = "[\<lparr>geom = \<lparr>g_start = 0, g_length = 100, g_end = 99\<rparr>, num = 1, part_type = 0,
        fs_type = None\<rparr>,
      \<lparr>geom = \<lparr>g_start = 100, g_length = 100, g_end = 199\<rparr>, num = 2, part_type = 0,
        fs_type = None\<rparr>]"
  let ?sr = "\<lparr>g_start = 50, g_length = 51, g_end = 100\<rparr>"
  let ?er = "\<lparr>g_start = 150, g_length = 1, g_end = 150\<rparr>"
  have h1: "disk_disjoint ?d"
    by (simp add: disk_disjoint_def)
  have h2: "snap_to_boundaries ?new ?old ?d ?sr ?er = Inr ?g1"
    by (simp add: snap_to_boundaries_def ped_disk_get_partition_by_sector_def snap_def
      ped_geometry_test_sector_inside_def PED_PARTITION_EXTENDED_def ped_geometry_set_def)
  have h3: "ped_disk_get_partition_by_sector ?d (g_start ?g1) \<noteq> None"
    by (simp add: ped_disk_get_partition_by_sector_def ped_geometry_test_sector_inside_def
        PED_PARTITION_EXTENDED_def)
  have "snap_to_boundaries ?g1 ?old ?d ?sr ?er = Inr ?g1"
    using snap_to_boundaries_idempotent [OF h1 h2] h3 by blast
  then show ?thesis using h2 by simp
qed

section \<open>Properties of the resize sequence\<close>

lemma bind_step_cases:
  assumes "bind_step m f = (tr, res)"
  shows "(\<exists>x tr'. m = (fst m, Continue x) \<and> f x = (tr', res) \<and> tr = fst m @ tr')
       \<or> (tr = fst m \<and> (\<forall>x. snd m \<noteq> Continue x) \<and>
            ((\<exists>n. snd m = Exit n \<and> res = Exit n) \<or> (\<exists>e. snd m = Stop e \<and> res = Stop e)))"
  using assms unfolding bind_step_def
  by (cases m; cases "snd m") (auto split: prod.splits)

lemma bind_step_Continue:
  "bind_step (tr, Continue x) f = (case f x of (tr', r) \<Rightarrow> (tr @ tr', r))"
  by (simp add: bind_step_def)

lemma fst_bind_step_Continue:
  "fst (bind_step (tr, Continue x) f) = tr @ fst (f x)"
  by (simp add: bind_step_def split: prod.splits)

lemma bind_step_Exit: "bind_step (tr, Exit n) f = (tr, Exit n)"
  by (simp add: bind_step_def)

lemma bind_step_Stop: "bind_step (tr, Stop e) f = (tr, Stop e)"
  by (simp add: bind_step_def)

lemma ped_geometry_new_quiet: "\<forall>c\<in>set (fst (ped_geometry_new s l)). \<not> mutating c"
  by (simp add: ped_geometry_new_def)

lemma main_end_range_quiet: "\<forall>c\<in>set (fst (main_end_range dev opts0 pg)). \<not> mutating c"
  by (auto simp: main_end_range_def Let_def ped_geometry_new_def bind_step_def ped_geometry_set_def
      split: option.splits)

lemma bind_step_quiet:
  assumes "\<forall>c\<in>set (fst m). \<not> mutating c"
    and "\<And>x. \<forall>c\<in>set (fst (f x)). \<not> mutating c"
  shows "\<forall>c\<in>set (fst (bind_step m f)). \<not> mutating c"
proof (cases m)
  case (Pair tr r)
  then show ?thesis
    using assms by (cases r) (auto simp: fst_bind_step_Continue bind_step_Exit bind_step_Stop)
qed

lemma main_constraint_quiet:
  "\<forall>c\<in>set (fst (main_constraint dev disk part pg rs er)). \<not> mutating c"
proof -
  obtain e re where er: "er = (e, re)" by (cases er)
  show ?thesis
    unfolding main_constraint_def er prod.case
    by (intro bind_step_quiet)
      (auto simp: fst_bind_step_Continue bind_step_Exit bind_step_Stop split: option.splits
        intro!: bind_step_quiet)
qed


lemma main_apply_cases:
  assumes "main_apply dev opts0 part (g, fs, c) = (tr, res)"
    and "SetPartitionGeom s e True \<in> set tr"
  shows "(tr = [SetPartitionGeom s e True, FileSystemResize g False] \<and> res = Exit 1)
    \<or> (\<exists>b. tr = [SetPartitionGeom s e True, FileSystemResize g True,
                   PartitionSetSystem (fs_type_name fs), FileSystemClose, DiskCommit b]
           \<and> res = Exit (if b then 0 else 1))"
proof (cases "0 < pnum opts0")
  case False
  have "SetPartitionGeom s e True \<notin> set (fst (main_apply dev opts0 part (g, fs, c)))"
    using False
    by (cases "ped_file_system_resize dev fs g")
       (simp_all add: main_apply_def bind_step_Continue bind_step_Exit)
  then show ?thesis using assms by simp
next
  case pos: True
  show ?thesis
  proof (cases part)
    case None
    then have "main_apply dev opts0 part (g, fs, c) = ([], Stop Uninitialised)"
      using pos by (simp add: main_apply_def bind_step_Stop)
    then show ?thesis using assms by simp
  next
    case (Some p)
    show ?thesis
    proof (cases "ped_disk_set_partition_geom dev p c (g_start g) (g_end g)")
      case False
      then have "main_apply dev opts0 part (g, fs, c) =
          ([SetPartitionGeom (g_start g) (g_end g) False, FileSystemClose], Exit 1)"
        using pos Some by (simp add: main_apply_def bind_step_Exit)
      then show ?thesis using assms by simp
    next
      case geom: True
      show ?thesis
      proof (cases "ped_file_system_resize dev fs g")
        case False
        then have "main_apply dev opts0 part (g, fs, c) =
            ([SetPartitionGeom (g_start g) (g_end g) True, FileSystemResize g False], Exit 1)"
          using pos Some geom by (simp add: main_apply_def bind_step_Continue)
        then show ?thesis using assms by auto
      next
        case True
        then have "main_apply dev opts0 part (g, fs, c) =
            ([SetPartitionGeom (g_start g) (g_end g) True, FileSystemResize g True,
              PartitionSetSystem (fs_type_name fs), FileSystemClose,
              DiskCommit (ped_disk_commit dev)],
             Exit (if ped_disk_commit dev then 0 else 1))"
          using pos Some geom
          by (cases "ped_disk_commit dev") (simp_all add: main_apply_def bind_step_Continue)
        then show ?thesis using assms by auto
      qed
    qed
  qed
qed

lemma quiet_no_set_geom:
  "\<forall>c\<in>set tr. \<not> mutating c \<Longrightarrow> SetPartitionGeom s e b \<notin> set tr"
  by auto

lemma quiet_no_commit:
  "\<forall>c\<in>set tr. \<not> mutating c \<Longrightarrow> DiskCommit b \<notin> set tr"
  by auto

lemma bind_step_through:
  assumes "bind_step m f = (tr, res)"
    and "\<forall>c\<in>set (fst m). \<not> mutating c"
    and "SetPartitionGeom s e True \<in> set tr"
  shows "\<exists>x tr'. f x = (tr', res) \<and> tr = fst m @ tr' \<and> SetPartitionGeom s e True \<in> set tr'"
proof -
  note no = quiet_no_set_geom [OF assms(2), of s e True]
  from bind_step_cases [OF assms(1)] show ?thesis
  proof
    assume "\<exists>x tr'. m = (fst m, Continue x) \<and> f x = (tr', res) \<and> tr = fst m @ tr'"
    then obtain x tr' where x: "f x = (tr', res)" "tr = fst m @ tr'" by blast
    then have "SetPartitionGeom s e True \<in> set tr'" using assms(3) no by simp
    then show ?thesis using x by blast
  next
    assume "tr = fst m \<and> (\<forall>x. snd m \<noteq> Continue x) \<and>
            ((\<exists>n. snd m = Exit n \<and> res = Exit n) \<or> (\<exists>e. snd m = Stop e \<and> res = Stop e))"
    then have "tr = fst m" by simp
    then show ?thesis using assms(3) no by simp
  qed
qed

text \<open>
  Claim C1. In every run of the resize sequence in which
  \<^verbatim>\<open>ped_disk_set_partition_geom\<close> has succeeded, no call before it changes the
  geometry or commits, and the next call is \<^verbatim>\<open>ped_file_system_resize\<close>. When
  that call fails it is the last call: the run exits with code 1 and
  \<^verbatim>\<open>ped_disk_commit\<close> is never called. When it succeeds, \<^verbatim>\<open>ped_disk_commit\<close> is
  called once, after it, and the exit code is 0 or 1 as the commit succeeds or
  fails.
\<close>

theorem main_commit_only_after_resize:
  assumes "main_resize dev opts0 disk part part_geom = (tr, res)"
    and "SetPartitionGeom s e True \<in> set tr"
  shows "\<exists>pre g. (\<forall>c\<in>set pre. \<not> mutating c) \<and>
     ((tr = pre @ [SetPartitionGeom s e True, FileSystemResize g False]
         \<and> res = Exit 1 \<and> (\<forall>b. DiskCommit b \<notin> set tr))
      \<or> (\<exists>name b. tr = pre @ [SetPartitionGeom s e True, FileSystemResize g True,
                                PartitionSetSystem name, FileSystemClose, DiskCommit b]
            \<and> res = Exit (if b then 0 else 1)))"
proof -
  let ?m1 = "ped_geometry_new (g_start part_geom) 1"
  let ?m2 = "main_end_range dev opts0 part_geom"
  note q1 = ped_geometry_new_quiet [of "g_start part_geom" 1]
  note q2 = main_end_range_quiet [of dev opts0 part_geom]
  obtain range_start tr1 where
    r1: "bind_step ?m2
            (\<lambda>er. bind_step (main_constraint dev disk part part_geom range_start er)
                 (main_apply dev opts0 part)) = (tr1, res)" and
    t1: "tr = fst ?m1 @ tr1" and in1: "SetPartitionGeom s e True \<in> set tr1"
    using bind_step_through [OF assms(1) [unfolded main_resize_def] q1 assms(2)] by blast
  obtain er tr2 where
    r2: "bind_step (main_constraint dev disk part part_geom range_start er)
                 (main_apply dev opts0 part) = (tr2, res)" and
    t2: "tr1 = fst ?m2 @ tr2" and in2: "SetPartitionGeom s e True \<in> set tr2"
    using bind_step_through [OF r1 q2 in1] by blast
  let ?m3 = "main_constraint dev disk part part_geom range_start er"
  note q3 = main_constraint_quiet [of dev disk part part_geom range_start er]
  obtain x tr3 where
    r3: "main_apply dev opts0 part x = (tr3, res)" and
    t3: "tr2 = fst ?m3 @ tr3" and in3: "SetPartitionGeom s e True \<in> set tr3"
    using bind_step_through [OF r2 q3 in2] by blast
  obtain g fs c where x: "x = (g, fs, c)" by (cases x)
  let ?pre = "fst ?m1 @ fst ?m2 @ fst ?m3"
  have pre: "\<forall>c\<in>set ?pre. \<not> mutating c" using q1 q2 q3 by auto
  have tr: "tr = ?pre @ tr3" using t1 t2 t3 by simp
  from main_apply_cases [OF r3 [unfolded x] in3] show ?thesis
  proof
    assume a: "tr3 = [SetPartitionGeom s e True, FileSystemResize g False] \<and> res = Exit 1"
    have "DiskCommit b \<notin> set tr" for b
      using quiet_no_commit [OF pre, of b] a unfolding tr by simp
    then have "tr = ?pre @ [SetPartitionGeom s e True, FileSystemResize g False]
         \<and> res = Exit 1 \<and> (\<forall>b. DiskCommit b \<notin> set tr)"
      using tr a by simp
    then show ?thesis using pre by blast
  next
    assume "\<exists>b. tr3 = [SetPartitionGeom s e True, FileSystemResize g True,
                   PartitionSetSystem (fs_type_name fs), FileSystemClose, DiskCommit b]
           \<and> res = Exit (if b then 0 else 1)"
    then obtain b where b: "tr3 = [SetPartitionGeom s e True, FileSystemResize g True,
                   PartitionSetSystem (fs_type_name fs), FileSystemClose, DiskCommit b]"
           "res = Exit (if b then 0 else 1)" by blast
    have "\<exists>name b. tr = ?pre @ [SetPartitionGeom s e True, FileSystemResize g True,
                                PartitionSetSystem name, FileSystemClose, DiskCommit b]
            \<and> res = Exit (if b then 0 else 1)"
      using tr b by blast
    then show ?thesis using pre by blast
  qed
qed


text \<open>
  A partition of 100 sectors shrunk to 25600 bytes; the geometry change succeeds
  and the resize of the file system fails.
\<close>

theorem main_commit_only_after_resize_witness:
  "main_resize
     \<lparr>sector_size = 512, dev_length = 100,
      ped_unit_format = (\<lambda>s. if s = 99 then ''old'' else ''new''),
      ped_unit_parse = (\<lambda>s. Some (50, \<lparr>g_start = 50, g_length = 1, g_end = 50\<rparr>)),
      ped_file_system_open = (\<lambda>g. Some \<lparr>fs_geom = g, fs_type_name = ''fat16''\<rparr>),
      ped_file_system_get_resize_constraint = (\<lambda>fs. None),
      ped_constraint_intersect = (\<lambda>a b. Some b),
      ped_disk_set_partition_geom = (\<lambda>p c s e. True),
      ped_file_system_resize = (\<lambda>fs g. False),
      ped_disk_commit = True\<rparr>
     \<lparr>fullpath = None, device = None, pnum = 1, size_bytes = 25600, verbose = 0, progress = 0,
      info = 0, force_yes = 0\<rparr>
     (Some [\<lparr>geom = \<lparr>g_start = 0, g_length = 100, g_end = 99\<rparr>, num = 1, part_type = 0,
              fs_type = Some ''fat16''\<rparr>])
     (Some \<lparr>geom = \<lparr>g_start = 0, g_length = 100, g_end = 99\<rparr>, num = 1, part_type = 0,
              fs_type = Some ''fat16''\<rparr>)
     \<lparr>g_start = 0, g_length = 100, g_end = 99\<rparr>
   = ([GeometryNew 0 1, UnitFormat 99, UnitFormat 50, UnitParse ''new'',
       GeometryDuplicate \<lparr>g_start = 0, g_length = 100, g_end = 99\<rparr>, GeometryInit 0 51,
       SnapToBoundaries \<lparr>g_start = 0, g_length = 51, g_end = 50\<rparr>
         \<lparr>g_start = 0, g_length = 100, g_end = 99\<rparr> \<lparr>g_start = 0, g_length = 1, g_end = 0\<rparr>
         \<lparr>g_start = 50, g_length = 1, g_end = 50\<rparr>,
       FileSystemOpen \<lparr>g_start = 0, g_length = 100, g_end = 99\<rparr>, GetResizeConstraint,
       ConstraintFromStartEnd \<lparr>g_start = 0, g_length = 1, g_end = 0\<rparr>
         \<lparr>g_start = 50, g_length = 1, g_end = 50\<rparr>,
       ConstraintIntersect, SetPartitionGeom 0 50 True,
       FileSystemResize \<lparr>g_start = 0, g_length = 51, g_end = 50\<rparr> False],
      Exit 1)
   \<and> (\<exists>pre g. (\<forall>c\<in>set pre. \<not> mutating c) \<and>
        [GeometryNew 0 1, UnitFormat 99, UnitFormat 50, UnitParse ''new'',
         GeometryDuplicate \<lparr>g_start = 0, g_length = 100, g_end = 99\<rparr>, GeometryInit 0 51,
         SnapToBoundaries \<lparr>g_start = 0, g_length = 51, g_end = 50\<rparr>
           \<lparr>g_start = 0, g_length = 100, g_end = 99\<rparr> \<lparr>g_start = 0, g_length = 1, g_end = 0\<rparr>
           \<lparr>g_start = 50, g_length = 1, g_end = 50\<rparr>,
         FileSystemOpen \<lparr>g_start = 0, g_length = 100, g_end = 99\<rparr>, GetResizeConstraint,
         ConstraintFromStartEnd \<lparr>g_start = 0, g_length = 1, g_end = 0\<rparr>
           \<lparr>g_start = 50, g_length = 1, g_end = 50\<rparr>,
         ConstraintIntersect, SetPartitionGeom 0 50 True,
         FileSystemResize \<lparr>g_start = 0, g_length = 51, g_end = 50\<rparr> False]
        = pre @ [SetPartitionGeom 0 50 True, FileSystemResize g False])"
proof -
  let ?dev = "\<lparr>sector_size = 512, dev_length = 100,
      ped_unit_format = (\<lambda>s. if s = 99 then ''old'' else ''new''),
      ped_unit_parse = (\<lambda>s. Some (50, \<lparr>g_start = 50, g_length = 1, g_end = 50\<rparr>)),
      ped_file_system_open = (\<lambda>g. Some \<lparr>fs_geom = g, fs_type_name = ''fat16''\<rparr>),
      ped_file_system_get_resize_constraint = (\<lambda>fs. None),
      ped_constraint_intersect = (\<lambda>a b. Some b),
      ped_disk_set_partition_geom = (\<lambda>p c s e. True),
      ped_file_system_resize = (\<lambda>fs g. False),
      ped_disk_commit = True\<rparr>"
  let ?opts = "\<lparr>fullpath = None, device = None, pnum = 1, size_bytes = 25600, verbose = 0,
      progress = 0, info = 0, force_yes = 0\<rparr>"
  let ?p = "\<lparr>geom = \<lparr>g_start = 0, g_length = 100, g_end = 99\<rparr>, num = 1, part_type = 0,
              fs_type = Some ''fat16''\<rparr>"
  let ?pg = "\<lparr>g_start = 0, g_length = 100, g_end = 99\<rparr>"
  let ?tr = "[GeometryNew 0 1, UnitFormat 99, UnitFormat 50, UnitParse ''new'',
       GeometryDuplicate \<lparr>g_start = 0, g_length = 100, g_end = 99\<rparr>, GeometryInit 0 51,
       SnapToBoundaries \<lparr>g_start = 0, g_length = 51, g_end = 50\<rparr>
         \<lparr>g_start = 0, g_length = 100, g_end = 99\<rparr> \<lparr>g_start = 0, g_length = 1, g_end = 0\<rparr>
         \<lparr>g_start = 50, g_length = 1, g_end = 50\<rparr>,
       FileSystemOpen \<lparr>g_start = 0, g_length = 100, g_end = 99\<rparr>, GetResizeConstraint,
       ConstraintFromStartEnd \<lparr>g_start = 0, g_length = 1, g_end = 0\<rparr>
         \<lparr>g_start = 50, g_length = 1, g_end = 50\<rparr>,
       ConstraintIntersect, SetPartitionGeom 0 50 True,
       FileSystemResize \<lparr>g_start = 0, g_length = 51, g_end = 50\<rparr> False]"
  have snap: "snap_to_boundaries \<lparr>g_start = 0, g_length = 51, g_end = 50\<rparr> (Some ?pg) [?p]
      \<lparr>g_start = 0, g_length = 1, g_end = 0\<rparr> \<lparr>g_start = 50, g_length = 1, g_end = 50\<rparr>
      = Inr \<lparr>g_start = 0, g_length = 51, g_end = 50\<rparr>"
    by (simp add: snap_to_boundaries_def ped_disk_get_partition_by_sector_def snap_def
      ped_geometry_test_sector_inside_def PED_PARTITION_EXTENDED_def ped_geometry_set_def)
  have h1: "main_resize ?dev ?opts (Some [?p]) (Some ?p) ?pg = (?tr, Exit 1)"
    by (simp add: main_resize_def main_end_range_def main_constraint_def main_apply_def
        bind_step_def ped_geometry_new_def ped_geometry_set_def c_div_def snap
        constraint_from_start_end_def)
  have h2: "SetPartitionGeom 0 50 True \<in> set ?tr" by simp
  from main_commit_only_after_resize [OF h1 h2]
  obtain pre g where pre: "\<forall>c\<in>set pre. \<not> mutating c"
    and alt: "(?tr = pre @ [SetPartitionGeom 0 50 True, FileSystemResize g False]
         \<and> Exit 1 = (Exit 1 :: unit step) \<and> (\<forall>b. DiskCommit b \<notin> set ?tr))
      \<or> (\<exists>name b. ?tr = pre @ [SetPartitionGeom 0 50 True, FileSystemResize g True,
                                PartitionSetSystem name, FileSystemClose, DiskCommit b]
            \<and> (Exit 1 :: unit step) = Exit (if b then 0 else 1))"
    by blast
  have "?tr = pre @ [SetPartitionGeom 0 50 True, FileSystemResize g False]"
    using alt
  proof
    assume "?tr = pre @ [SetPartitionGeom 0 50 True, FileSystemResize g False]
         \<and> Exit 1 = (Exit 1 :: unit step) \<and> (\<forall>b. DiskCommit b \<notin> set ?tr)"
    then show ?thesis by blast
  next
    assume "\<exists>name b. ?tr = pre @ [SetPartitionGeom 0 50 True, FileSystemResize g True,
                                PartitionSetSystem name, FileSystemClose, DiskCommit b]
            \<and> (Exit 1 :: unit step) = Exit (if b then 0 else 1)"
    then obtain name b where "?tr = pre @ [SetPartitionGeom 0 50 True, FileSystemResize g True,
                                PartitionSetSystem name, FileSystemClose, DiskCommit b]"
      by blast
    then have "last ?tr = DiskCommit b" by (simp only: last_appendR last.simps list.distinct if_True if_False not_Cons_self2 simp_thms)
    then show ?thesis by simp
  qed
  then show ?thesis using h1 pre by blast
qed


lemma in_bind_step:
  assumes "c \<in> set (fst (bind_step m f))"
  shows "c \<in> set (fst m) \<or> (\<exists>x. snd m = Continue x \<and> c \<in> set (fst (f x)))"
proof (cases m)
  case (Pair tr r)
  then show ?thesis
    using assms by (cases r) (auto simp: fst_bind_step_Continue bind_step_Exit bind_step_Stop)
qed

lemma in_bind_step_prefix:
  "c \<in> set tr \<Longrightarrow> c \<in> set (fst (bind_step (tr, r) f))"
  by (cases r) (auto simp: fst_bind_step_Continue bind_step_Exit bind_step_Stop)

lemma in_bind_step_fst:
  "c \<in> set (fst m) \<Longrightarrow> c \<in> set (fst (bind_step m f))"
  by (cases m) (simp add: in_bind_step_prefix)

lemma ped_geometry_new_no_range: "c \<in> set (fst (ped_geometry_new s l)) \<Longrightarrow> uses_end_range c = None"
  by (simp add: ped_geometry_new_def)

lemma main_end_range_no_range:
  "c \<in> set (fst (main_end_range dev opts0 pg)) \<Longrightarrow> uses_end_range c = None"
  by (auto simp: main_end_range_def Let_def ped_geometry_new_def bind_step_def ped_geometry_set_def
      split: option.splits if_splits)

lemma main_apply_no_range:
  "c \<in> set (fst (main_apply dev opts0 part x)) \<Longrightarrow> uses_end_range c = None"
proof -
  assume a: "c \<in> set (fst (main_apply dev opts0 part x))"
  obtain g fs k where x: "x = (g, fs, k)" by (cases x)
  from a [unfolded x main_apply_def prod.case] show ?thesis
    by (auto dest!: in_bind_step split: if_splits option.splits)
qed

lemma main_constraint_range:
  assumes "c \<in> set (fst (main_constraint dev disk part pg rs (e, re)))"
    and "uses_end_range c = Some re'"
  shows "re' = re"
  using assms(1) [unfolded main_constraint_def prod.case] assms(2)
  by (auto dest!: in_bind_step split: option.splits)

lemma main_resize_range:
  assumes "c \<in> set (fst (main_resize dev opts0 disk part pg))"
    and "uses_end_range c = Some re"
  shows "\<exists>e. snd (main_end_range dev opts0 pg) = Continue (e, re)"
proof -
  have n1: "c \<notin> set (fst (ped_geometry_new (g_start pg) 1))"
    using ped_geometry_new_no_range [of c] assms(2) by fastforce
  have n2: "c \<notin> set (fst (main_end_range dev opts0 pg))"
    using main_end_range_no_range [of c] assms(2) by fastforce
  have n3: "c \<notin> set (fst (main_apply dev opts0 part x))" for x
    using main_apply_no_range [of c] assms(2) by fastforce
  from in_bind_step [OF assms(1) [unfolded main_resize_def]] n1
  obtain rs where c1: "c \<in> set (fst (bind_step (main_end_range dev opts0 pg)
            (\<lambda>er. bind_step (main_constraint dev disk part pg rs er) (main_apply dev opts0 part))))"
    by blast
  from in_bind_step [OF c1] n2
  obtain er where er: "snd (main_end_range dev opts0 pg) = Continue er"
    and c2: "c \<in> set (fst (bind_step (main_constraint dev disk part pg rs er)
               (main_apply dev opts0 part)))"
    by blast
  obtain e re0 where p: "er = (e, re0)" by (cases er)
  from in_bind_step [OF c2] n3
  have "c \<in> set (fst (main_constraint dev disk part pg rs (e, re0)))"
    unfolding p by blast
  then have "re = re0" using main_constraint_range assms(2) by blast
  then show ?thesis using er p by simp
qed

lemma main_resize_snaps:
  assumes "geom_wf pg" and "main_end_range dev opts0 pg = (tr, Continue (e, re))"
    and "g_start pg \<le> e"
  shows "SnapToBoundaries \<lparr>g_start = g_start pg, g_length = e - g_start pg + 1, g_end = e\<rparr> pg
           \<lparr>g_start = g_start pg, g_length = 1, g_end = g_start pg\<rparr> re
         \<in> set (fst (main_resize dev opts0 disk part pg))"
proof -
  have wf: "0 \<le> g_start pg" "1 \<le> g_length pg" using assms(1) by (simp_all add: geom_wf_def)
  have n: "ped_geometry_new (g_start pg) 1 =
      ([GeometryNew (g_start pg) 1],
       Continue \<lparr>g_start = g_start pg, g_length = 1, g_end = g_start pg\<rparr>)"
    using wf by (simp add: ped_geometry_new_def ped_geometry_set_def)
  let ?rs = "\<lparr>g_start = g_start pg, g_length = 1, g_end = g_start pg\<rparr>"
  let ?new = "\<lparr>g_start = g_start pg, g_length = e - g_start pg + 1, g_end = e\<rparr>"
  have "SnapToBoundaries ?new pg ?rs re \<in> set (fst (main_constraint dev disk part pg ?rs (e, re)))"
    using wf assms(3)
    by (simp add: main_constraint_def ped_geometry_set_def fst_bind_step_Continue
        in_bind_step_prefix)
  then show ?thesis
    unfolding main_resize_def n assms(2) fst_bind_step_Continue
    by (simp add: in_bind_step_fst)
qed

text \<open>
  Claim C2. For a device with a sector size and a well-formed partition geometry,
  let \<open>end0\<close> be the start of the partition plus the size divided by the sector
  size. When \<open>end0\<close> and the old end have the same display string, the end range
  is the single sector at the old end and \<^verbatim>\<open>ped_unit_parse\<close> is not called;
  otherwise \<^verbatim>\<open>ped_unit_parse\<close> is called on the display string of \<open>end0\<close> and
  gives the end range (or the run exits with code 1). Every call of the snapper
  and of the constraint builder in the run is given that end range, and the
  snapper is called with it whenever the end is not before the start.
\<close>

theorem main_end_range_shortcut:
  assumes "sector_size dev \<noteq> 0" and "geom_wf part_geom"
    and "end0 = g_start part_geom + c_div (size_bytes opts0) (sector_size dev)"
  shows "(ped_unit_format dev end0 = ped_unit_format dev (g_end part_geom) \<longrightarrow>
            main_end_range dev opts0 part_geom =
              ([UnitFormat (g_end part_geom), UnitFormat end0, GeometryNew (g_end part_geom) 1],
               Continue (end0, \<lparr>g_start = g_end part_geom, g_length = 1,
                                 g_end = g_end part_geom\<rparr>)))
       \<and> (ped_unit_format dev end0 \<noteq> ped_unit_format dev (g_end part_geom) \<longrightarrow>
            main_end_range dev opts0 part_geom =
              ([UnitFormat (g_end part_geom), UnitFormat end0, UnitParse (ped_unit_format dev end0)],
               case ped_unit_parse dev (ped_unit_format dev end0) of
                 None \<Rightarrow> Exit 1
               | Some (end1, range_end) \<Rightarrow> Continue (end1, range_end)))
       \<and> (\<forall>c\<in>set (fst (main_resize dev opts0 disk part part_geom)). \<forall>re.
            uses_end_range c = Some re \<longrightarrow>
              (\<exists>e. snd (main_end_range dev opts0 part_geom) = Continue (e, re)))
       \<and> (\<forall>e re. snd (main_end_range dev opts0 part_geom) = Continue (e, re)
              \<and> g_start part_geom \<le> e \<longrightarrow>
            SnapToBoundaries
              \<lparr>g_start = g_start part_geom, g_length = e - g_start part_geom + 1, g_end = e\<rparr>
              part_geom
              \<lparr>g_start = g_start part_geom, g_length = 1, g_end = g_start part_geom\<rparr> re
            \<in> set (fst (main_resize dev opts0 disk part part_geom)))"
proof (intro conjI impI ballI allI)
  have ge: "0 \<le> g_end part_geom" using assms(2) unfolding geom_wf_def by linarith
  {
    assume "ped_unit_format dev end0 = ped_unit_format dev (g_end part_geom)"
    then show "main_end_range dev opts0 part_geom =
              ([UnitFormat (g_end part_geom), UnitFormat end0, GeometryNew (g_end part_geom) 1],
               Continue (end0, \<lparr>g_start = g_end part_geom, g_length = 1,
                                 g_end = g_end part_geom\<rparr>))"
      using assms(1) ge
      by (simp add: main_end_range_def assms(3) [symmetric] Let_def bind_step_def
          ped_geometry_new_def ped_geometry_set_def)
  }
  {
    assume "ped_unit_format dev end0 \<noteq> ped_unit_format dev (g_end part_geom)"
    then show "main_end_range dev opts0 part_geom =
              ([UnitFormat (g_end part_geom), UnitFormat end0, UnitParse (ped_unit_format dev end0)],
               case ped_unit_parse dev (ped_unit_format dev end0) of
                 None \<Rightarrow> Exit 1
               | Some (end1, range_end) \<Rightarrow> Continue (end1, range_end))"
      using assms(1)
      by (auto simp: main_end_range_def assms(3) [symmetric] Let_def bind_step_def)
  }
  {
    fix c re
    assume "c \<in> set (fst (main_resize dev opts0 disk part part_geom))"
      and "uses_end_range c = Some re"
    then show "\<exists>e. snd (main_end_range dev opts0 part_geom) = Continue (e, re)"
      by (rule main_resize_range)
  }
  {
    fix e re
    assume a: "snd (main_end_range dev opts0 part_geom) = Continue (e, re)
              \<and> g_start part_geom \<le> e"
    then have "main_end_range dev opts0 part_geom
        = (fst (main_end_range dev opts0 part_geom), Continue (e, re))"
      by (metis prod.collapse)
    from main_resize_snaps [OF assms(2) this] a
    show "SnapToBoundaries
              \<lparr>g_start = g_start part_geom, g_length = e - g_start part_geom + 1, g_end = e\<rparr>
              part_geom
              \<lparr>g_start = g_start part_geom, g_length = 1, g_end = g_start part_geom\<rparr> re
            \<in> set (fst (main_resize dev opts0 disk part part_geom))"
      by simp
  }
qed


text \<open>
  A display unit that cannot tell sector 95 from sector 99, and can tell sector
  50 from it.
\<close>

theorem main_end_range_shortcut_witness:
  "main_end_range
     \<lparr>sector_size = 512, dev_length = 100,
      ped_unit_format = (\<lambda>s. if s < 90 then ''4kB'' else ''5kB''),
      ped_unit_parse = (\<lambda>s. Some (50, \<lparr>g_start = 40, g_length = 21, g_end = 60\<rparr>)),
      ped_file_system_open = (\<lambda>g. None),
      ped_file_system_get_resize_constraint = (\<lambda>fs. None),
      ped_constraint_intersect = (\<lambda>a b. None),
      ped_disk_set_partition_geom = (\<lambda>p c s e. False),
      ped_file_system_resize = (\<lambda>fs g. False),
      ped_disk_commit = False\<rparr>
     \<lparr>fullpath = None, device = None, pnum = 1, size_bytes = 48640, verbose = 0, progress = 0,
      info = 0, force_yes = 0\<rparr>
     \<lparr>g_start = 0, g_length = 100, g_end = 99\<rparr>
   = ([UnitFormat 99, UnitFormat 95, GeometryNew 99 1],
      Continue (95, \<lparr>g_start = 99, g_length = 1, g_end = 99\<rparr>))
   \<and> main_end_range
     \<lparr>sector_size = 512, dev_length = 100,
      ped_unit_format = (\<lambda>s. if s < 90 then ''4kB'' else ''5kB''),
      ped_unit_parse = (\<lambda>s. Some (50, \<lparr>g_start = 40, g_length = 21, g_end = 60\<rparr>)),
      ped_file_system_open = (\<lambda>g. None),
      ped_file_system_get_resize_constraint = (\<lambda>fs. None),
      ped_constraint_intersect = (\<lambda>a b. None),
      ped_disk_set_partition_geom = (\<lambda>p c s e. False),
      ped_file_system_resize = (\<lambda>fs g. False),
      ped_disk_commit = False\<rparr>
     \<lparr>fullpath = None, device = None, pnum = 1, size_bytes = 25600, verbose = 0, progress = 0,
      info = 0, force_yes = 0\<rparr>
     \<lparr>g_start = 0, g_length = 100, g_end = 99\<rparr>
   = ([UnitFormat 99, UnitFormat 50, UnitParse ''4kB''],
      Continue (50, \<lparr>g_start = 40, g_length = 21, g_end = 60\<rparr>))"
proof -
  let ?dev = "\<lparr>sector_size = 512, dev_length = 100,
      ped_unit_format = (\<lambda>s. if s < 90 then ''4kB'' else ''5kB''),
      ped_unit_parse = (\<lambda>s. Some (50, \<lparr>g_start = 40, g_length = 21, g_end = 60\<rparr>)),
      ped_file_system_open = (\<lambda>g. None),
      ped_file_system_get_resize_constraint = (\<lambda>fs. None),
      ped_constraint_intersect = (\<lambda>a b. None),
      ped_disk_set_partition_geom = (\<lambda>p c s e. False),
      ped_file_system_resize = (\<lambda>fs g. False),
      ped_disk_commit = False\<rparr>"
  let ?near = "\<lparr>fullpath = None, device = None, pnum = 1, size_bytes = 48640, verbose = 0,
      progress = 0, info = 0, force_yes = 0\<rparr>"
  let ?far = "\<lparr>fullpath = None, device = None, pnum = 1, size_bytes = 25600, verbose = 0,
      progress = 0, info = 0, force_yes = 0\<rparr>"
  let ?pg = "\<lparr>g_start = 0, g_length = 100, g_end = 99\<rparr>"
  have ss: "sector_size ?dev \<noteq> 0" by simp
  have wf: "geom_wf ?pg" by (simp add: geom_wf_def)
  have e1: "(95::int) = g_start ?pg + c_div (size_bytes ?near) (sector_size ?dev)"
    by (simp add: c_div_def)
  have e2: "(50::int) = g_start ?pg + c_div (size_bytes ?far) (sector_size ?dev)"
    by (simp add: c_div_def)
  have same: "ped_unit_format ?dev 95 = ped_unit_format ?dev (g_end ?pg)" by simp
  have differ: "ped_unit_format ?dev 50 \<noteq> ped_unit_format ?dev (g_end ?pg)" by simp
  have a: "main_end_range ?dev ?near ?pg =
      ([UnitFormat (g_end ?pg), UnitFormat 95, GeometryNew (g_end ?pg) 1],
       Continue (95, \<lparr>g_start = g_end ?pg, g_length = 1, g_end = g_end ?pg\<rparr>))"
    using main_end_range_shortcut [OF ss wf e1, of None None] same by blast
  have b: "main_end_range ?dev ?far ?pg =
      ([UnitFormat (g_end ?pg), UnitFormat 50, UnitParse (ped_unit_format ?dev 50)],
       case ped_unit_parse ?dev (ped_unit_format ?dev 50) of
         None \<Rightarrow> Exit 1
       | Some (end1, range_end) \<Rightarrow> Continue (end1, range_end))"
    using main_end_range_shortcut [OF ss wf e2, of None None] differ by blast
  show ?thesis using a b by simp
qed

text \<open>
  In the shortcut case the code keeps the proposed end in \<^verbatim>\<open>end\<close>. When that end
  differs from the old end and lies in a partition, the end is outside the
  pinned range and the assertion of \<open>snap\<close> stops the run.
\<close>

lemma main_resize_shortcut_asserts:
  assumes "sector_size dev \<noteq> 0" and "geom_wf part_geom"
    and "end0 = g_start part_geom + c_div (size_bytes opts0) (sector_size dev)"
    and "ped_unit_format dev end0 = ped_unit_format dev (g_end part_geom)"
    and "end0 \<noteq> g_end part_geom" and "g_start part_geom \<le> end0"
    and "ped_disk_get_partition_by_sector d (g_start part_geom) = Some sp"
    and "ped_disk_get_partition_by_sector d end0 = Some ep"
  shows "snd (main_resize dev opts0 (Some d) part part_geom) = Stop AssertFailed"
proof -
  have wf: "0 \<le> g_start part_geom" "1 \<le> g_length part_geom" "0 \<le> g_end part_geom"
    "g_start part_geom \<noteq> - 1" "g_end part_geom \<noteq> - 1"
    using assms(2) unfolding geom_wf_def by linarith+
  let ?rs = "\<lparr>g_start = g_start part_geom, g_length = 1, g_end = g_start part_geom\<rparr>"
  let ?re = "\<lparr>g_start = g_end part_geom, g_length = 1, g_end = g_end part_geom\<rparr>"
  let ?new = "\<lparr>g_start = g_start part_geom, g_length = end0 - g_start part_geom + 1,
               g_end = end0\<rparr>"
  have n: "ped_geometry_new (g_start part_geom) 1 = ([GeometryNew (g_start part_geom) 1], Continue ?rs)"
    using wf by (simp add: ped_geometry_new_def ped_geometry_set_def)
  have er: "main_end_range dev opts0 part_geom =
      ([UnitFormat (g_end part_geom), UnitFormat end0, GeometryNew (g_end part_geom) 1],
       Continue (end0, ?re))"
    using assms(1,4) wf
    by (simp add: main_end_range_def assms(3) [symmetric] Let_def bind_step_def
        ped_geometry_new_def ped_geometry_set_def)
  have s: "try_snap (g_start part_geom) ?rs
      [g_start part_geom, g_start (geom sp), g_end (geom sp) + 1, - 1] = Inr (g_start part_geom)"
    using wf by (simp add: snap_def ped_geometry_test_sector_inside_def)
  have e: "try_snap end0 ?re
      [g_end part_geom, g_end (geom ep), g_start (geom ep) - 1, - 1] = Inl AssertFailed"
    using wf assms(5) by (simp add: snap_def ped_geometry_test_sector_inside_def)
  have sn: "snap_to_boundaries ?new (Some part_geom) d ?rs ?re = Inl AssertFailed"
    unfolding snap_to_boundaries_def Let_def
    using assms(7,8) s e by simp
  have "snd (main_constraint dev (Some d) part part_geom ?rs (end0, ?re)) = Stop AssertFailed"
    using wf assms(6) sn
    by (simp add: main_constraint_def ped_geometry_set_def bind_step_def)
  then obtain tr where "main_constraint dev (Some d) part part_geom ?rs (end0, ?re)
      = (tr, Stop AssertFailed)"
    by (cases "main_constraint dev (Some d) part part_geom ?rs (end0, ?re)") simp
  then show ?thesis
    unfolding main_resize_def n er
    by (simp add: bind_step_Continue bind_step_Stop)
qed


end
